theory Spec2Isabelle
  imports Main "HOL-Library.Word" "HOL-Library.Signed_Division"
begin

unbundle bit_operations_syntax

section \<open>Kernel heap allocator (memory.c)\<close>

text \<open>
  The heap is a singly linked list of block headers that live inside the heap region.
  A header is \<open>struct mem_block { uint32_t size; int is_free; struct mem_block *next; }\<close>,
  12 bytes on the 32-bit target. The store \<open>blocks\<close> maps an address to the header read
  there; every address can be read (the kernel runs without paging), and a header that was
  never written holds whatever the store holds. Pointers are 32-bit addresses, \<open>0\<close> is
  \<open>NULL\<close>. The flag \<open>is_free\<close> is only ever written 0 or 1 and only read as a truth value.
\<close>

type_synonym addr = "32 word"

record mem_block =
  size_b :: "32 word"
  is_free :: bool
  next_b :: addr

record heap =
  blocks :: "addr \<Rightarrow> mem_block"
  free_list :: addr
  total_allocated :: "32 word"

definition KERNEL_HEAP_START :: addr where
  "KERNEL_HEAP_START = 0x100000"

definition KERNEL_HEAP_SIZE :: "32 word" where
  "KERNEL_HEAP_SIZE = 0x100000"

definition heap_start :: addr where
  "heap_start = KERNEL_HEAP_START"

text \<open>\<open>sizeof(mem_block_t)\<close>.\<close>

definition header :: "32 word" where
  "header = 12"

text \<open>Field writes \<open>p->size = v\<close>, \<open>p->is_free = v\<close>, \<open>p->next = v\<close>, one at a time.\<close>

definition set_size :: "addr \<Rightarrow> 32 word \<Rightarrow> heap \<Rightarrow> heap" where
  "set_size a v h = h\<lparr>blocks := (blocks h)(a := (blocks h a)\<lparr>size_b := v\<rparr>)\<rparr>"

definition set_is_free :: "addr \<Rightarrow> bool \<Rightarrow> heap \<Rightarrow> heap" where
  "set_is_free a v h = h\<lparr>blocks := (blocks h)(a := (blocks h a)\<lparr>is_free := v\<rparr>)\<rparr>"

definition set_next :: "addr \<Rightarrow> addr \<Rightarrow> heap \<Rightarrow> heap" where
  "set_next a v h = h\<lparr>blocks := (blocks h)(a := (blocks h a)\<lparr>next_b := v\<rparr>)\<rparr>"

text \<open>
  \<open>memory_init\<close>, with the heap size as an argument; the kernel calls it with
  \<open>KERNEL_HEAP_SIZE\<close>. The counter \<open>total_allocated\<close> is not reset.
\<close>

definition memory_init_sized :: "32 word \<Rightarrow> heap \<Rightarrow> heap" where
  "memory_init_sized heap_size h =
    (let h1 = h\<lparr>free_list := heap_start\<rparr>;
         h2 = set_size (free_list h1) (heap_size - header) h1;
         h3 = set_is_free (free_list h2) True h2
     in set_next (free_list h3) 0 h3)"

definition memory_init :: "heap \<Rightarrow> heap" where
  "memory_init = memory_init_sized KERNEL_HEAP_SIZE"

text \<open>\<open>size = (size + 3) & ~3\<close> on \<open>uint32_t\<close>.\<close>

definition align4 :: "32 word \<Rightarrow> 32 word" where
  "align4 sz = (sz + 3) AND NOT 3"

text \<open>The body of \<open>if (current->size > size + sizeof(mem_block_t) + 16) { ... }\<close>.\<close>

definition kmalloc_split :: "32 word \<Rightarrow> addr \<Rightarrow> heap \<Rightarrow> heap" where
  "kmalloc_split sz current h =
    (let new_block = current + header + sz;
         h1 = set_size new_block (size_b (blocks h current) - sz - header) h;
         h2 = set_is_free new_block True h1;
         h3 = set_next new_block (next_b (blocks h2 current)) h2;
         h4 = set_next current new_block h3
     in set_size current sz h4)"

text \<open>The body of the \<open>if (current->is_free && current->size >= size)\<close> branch.\<close>

definition kmalloc_take :: "32 word \<Rightarrow> addr \<Rightarrow> heap \<Rightarrow> heap" where
  "kmalloc_take sz current h =
    (let h1 = set_is_free current False h;
         h2 = (if sz + header + 16 < size_b (blocks h1 current)
               then kmalloc_split sz current h1 else h1)
     in h2\<lparr>total_allocated := total_allocated h2 + size_b (blocks h2 current)\<rparr>)"

text \<open>
  The first-fit loop \<open>while (current) { ... current = current->next; }\<close>. On a cyclic
  list with no fitting block it never returns: the value is \<open>None\<close>.
\<close>

partial_function (option) kmalloc_scan :: "32 word \<Rightarrow> addr \<Rightarrow> heap \<Rightarrow> (addr \<times> heap) option" where
  "kmalloc_scan sz current h =
    (if current = 0 then Some (0, h)
     else if is_free (blocks h current) \<and> sz \<le> size_b (blocks h current)
       then Some (current + header, kmalloc_take sz current h)
       else kmalloc_scan sz (next_b (blocks h current)) h)"

definition kmalloc :: "32 word \<Rightarrow> heap \<Rightarrow> (addr \<times> heap) option" where
  "kmalloc sz h =
    (if sz = 0 then Some (0, h) else kmalloc_scan (align4 sz) (free_list h) h)"

text \<open>The coalescing loop of \<open>kfree\<close>: \<open>while (current && current->next) { ... }\<close>.\<close>

partial_function (option) kfree_coalesce :: "addr \<Rightarrow> heap \<Rightarrow> heap option" where
  "kfree_coalesce current h =
    (if current \<noteq> 0 \<and> next_b (blocks h current) \<noteq> 0 then
       (if is_free (blocks h current) \<and> is_free (blocks h (next_b (blocks h current))) then
          (let h1 = set_size current
                      (size_b (blocks h current)
                         + (header + size_b (blocks h (next_b (blocks h current))))) h;
               h2 = set_next current (next_b (blocks h1 (next_b (blocks h1 current)))) h1
           in kfree_coalesce current h2)
        else kfree_coalesce (next_b (blocks h current)) h)
     else Some h)"

definition kfree :: "addr \<Rightarrow> heap \<Rightarrow> heap option" where
  "kfree ptr h =
    (if ptr = 0 then Some h
     else let block = ptr - header;
              h1 = set_is_free block True h;
              h2 = h1\<lparr>total_allocated := total_allocated h1 - size_b (blocks h1 block)\<rparr>
          in kfree_coalesce (free_list h2) h2)"

text \<open>
  What the list looks like from \<open>free_list\<close> on: the address, usable size and free flag of
  every block, in link order. \<open>None\<close> when the links never reach \<open>NULL\<close>.
\<close>

partial_function (option) block_list :: "addr \<Rightarrow> heap \<Rightarrow> (addr \<times> nat \<times> bool) list option" where
  "block_list a h =
    (if a = 0 then Some []
     else Option.bind (block_list (next_b (blocks h a)) h)
            (\<lambda>rest. Some ((a, unat (size_b (blocks h a)), is_free (blocks h a)) # rest)))"

text \<open>Rounding up to a multiple of four, on the naturals.\<close>

definition round_up4 :: "nat \<Rightarrow> nat" where
  "round_up4 n = ((n + 3) div 4) * 4"


text \<open>
  A 32-bit word given by a natural number. Sizes and addresses of the scenarios below are
  written in this form, so that their comparisons are comparisons of naturals.
\<close>

definition w32 :: "nat \<Rightarrow> 32 word" where
  "w32 n = of_nat n"

text \<open>
  \<open>chain h a bs\<close>: from address \<open>a\<close> the links of \<open>h\<close> run through exactly the blocks
  \<open>bs\<close> (address, size, free flag) and end in \<open>NULL\<close>.
\<close>

fun chain :: "heap \<Rightarrow> addr \<Rightarrow> (addr \<times> 32 word \<times> bool) list \<Rightarrow> bool" where
  "chain h a [] = (a = 0)"
| "chain h a ((b, s, f) # bs) =
     (a = b \<and> b \<noteq> 0 \<and> size_b (blocks h b) = s \<and> is_free (blocks h b) = f
        \<and> chain h (next_b (blocks h b)) bs)"

text \<open>
  The state at power-on: the statics of memory.c (\<open>free_list = NULL\<close>,
  \<open>total_allocated = 0\<close>) over zeroed memory.
\<close>

definition boot_heap :: heap where
  "boot_heap = \<lparr>blocks = (\<lambda>_. \<lparr>size_b = 0, is_free = False, next_b = 0\<rparr>),
                 free_list = 0, total_allocated = 0\<rparr>"

text \<open>
  The coalescing scenario: on a freshly initialised heap, three allocations of the same
  size, then the first and the second block are freed, in either order.
\<close>

definition coalesce_scenario ::
  "32 word \<Rightarrow> bool \<Rightarrow> heap \<Rightarrow> (addr \<times> addr \<times> addr \<times> heap) option" where
  "coalesce_scenario R first_then_second h0 =
     Option.bind (kmalloc R (memory_init h0)) (\<lambda>(p1, h1).
     Option.bind (kmalloc R h1) (\<lambda>(p2, h2).
     Option.bind (kmalloc R h2) (\<lambda>(p3, h3).
     Option.bind (if first_then_second then Option.bind (kfree p1 h3) (kfree p2)
                  else Option.bind (kfree p2 h3) (kfree p1)) (\<lambda>h5.
     Some (p1, p2, p3, h5)))))"

text \<open>The pointer returned by one more \<open>kmalloc\<close> after the scenario.\<close>

definition alloc_after_scenario :: "32 word \<Rightarrow> bool \<Rightarrow> heap \<Rightarrow> 32 word \<Rightarrow> addr option" where
  "alloc_after_scenario R first_then_second h0 M =
     Option.bind (coalesce_scenario R first_then_second h0)
       (\<lambda>(p1, p2, p3, h5). map_option fst (kmalloc M h5))"

text \<open>The three pointers the scenario hands out.\<close>

definition scenario_pointers :: "32 word \<Rightarrow> bool \<Rightarrow> heap \<Rightarrow> (addr \<times> addr \<times> addr) option" where
  "scenario_pointers R first_then_second h0 =
     map_option (\<lambda>(p1, p2, p3, h5). (p1, p2, p3)) (coalesce_scenario R first_then_second h0)"

text \<open>The block list a call of \<open>kmalloc\<close> leaves behind.\<close>

definition blocks_after :: "(addr \<times> heap) option \<Rightarrow> (addr \<times> nat \<times> bool) list option" where
  "blocks_after res = Option.bind res (\<lambda>(p, h'). block_list (free_list h') h')"

text \<open>First fit on a list of blocks: the address of the first free block that is large enough.\<close>

fun first_fit :: "32 word \<Rightarrow> (addr \<times> 32 word \<times> bool) list \<Rightarrow> addr option" where
  "first_fit sz [] = None"
| "first_fit sz ((b, s, f) # bs) = (if f \<and> sz \<le> s then Some b else first_fit sz bs)"

section \<open>Process manager (process.c)\<close>

datatype process_state_t = PROCESS_READY | PROCESS_RUNNING | PROCESS_TERMINATED

text \<open>
  \<open>struct process\<close>. The field \<open>name\<close> holds the characters of \<open>char name[32]\<close> up to
  its terminator. \<open>sizeof(process_t)\<close> is 56 on the 32-bit target.
\<close>

record process =
  pid :: "32 word"
  pname :: string
  pstate :: process_state_t
  esp :: "32 word"
  ebp :: "32 word"
  stack :: addr
  next_p :: addr

definition sizeof_process_t :: "32 word" where
  "sizeof_process_t = 56"

definition PROCESS_STACK_SIZE :: "32 word" where
  "PROCESS_STACK_SIZE = 4096"

text \<open>
  The state of the process manager: the heap it allocates from, the process structures
  and the stack words that live in allocated memory, and the statics of process.c.
\<close>

record kernel =
  kheap :: heap
  procs :: "addr \<Rightarrow> process"
  stack_mem :: "addr \<Rightarrow> 32 word"
  process_queue :: addr
  current_process :: addr
  next_pid :: "32 word"

definition process_init :: "kernel \<Rightarrow> kernel" where
  "process_init k = k\<lparr>process_queue := 0, current_process := 0\<rparr>"

text \<open>
  \<open>for (i = 0; i < 31 && name[i]; i++) proc->name[i] = name[i]; proc->name[i] = '\0';\<close>
  The argument is the C string: its characters, followed by the terminator.
\<close>

fun copy_name :: "nat \<Rightarrow> string \<Rightarrow> string" where
  "copy_name 0 cs = []"
| "copy_name (Suc n) [] = []"
| "copy_name (Suc n) (c # cs) = (if c = CHR 0x00 then [] else c # copy_name n cs)"

text \<open>
  \<open>process_create\<close>: the returned \<open>int\<close> and the new state; \<open>None\<close> when an allocator
  loop does not return.
\<close>

definition process_create :: "32 word \<Rightarrow> string \<Rightarrow> kernel \<Rightarrow> (int \<times> kernel) option" where
  "process_create entry name k =
    Option.bind (kmalloc sizeof_process_t (kheap k)) (\<lambda>(proc, h1).
      if proc = 0 then Some (- 1, k\<lparr>kheap := h1\<rparr>)
      else Option.bind (kmalloc PROCESS_STACK_SIZE h1) (\<lambda>(stk, h2).
        let k1 = k\<lparr>kheap := h2, procs := (procs k)(proc := (procs k proc)\<lparr>stack := stk\<rparr>)\<rparr>
        in if stack (procs k1 proc) = 0 then
             Option.bind (kfree proc (kheap k1)) (\<lambda>h3. Some (- 1, k1\<lparr>kheap := h3\<rparr>))
           else
             let k2 = k1\<lparr>procs := (procs k1)(proc := (procs k1 proc)\<lparr>pid := next_pid k1\<rparr>),
                        next_pid := next_pid k1 + 1\<rparr>;
                 k3 = k2\<lparr>procs := (procs k2)(proc := (procs k2 proc)\<lparr>pname := copy_name 31 name\<rparr>)\<rparr>;
                 k4 = k3\<lparr>procs := (procs k3)(proc := (procs k3 proc)\<lparr>pstate := PROCESS_READY\<rparr>)\<rparr>;
                 stack_top = stack (procs k4 proc) + PROCESS_STACK_SIZE - 4;
                 k5 = k4\<lparr>stack_mem := (stack_mem k4)(stack_top := entry)\<rparr>;
                 k6 = k5\<lparr>procs := (procs k5)(proc := (procs k5 proc)\<lparr>esp := stack_top\<rparr>)\<rparr>;
                 k7 = k6\<lparr>procs := (procs k6)(proc := (procs k6 proc)\<lparr>ebp := esp (procs k6 proc)\<rparr>)\<rparr>;
                 k8 = k7\<lparr>procs := (procs k7)(proc := (procs k7 proc)\<lparr>next_p := process_queue k7\<rparr>)\<rparr>;
                 k9 = k8\<lparr>process_queue := proc\<rparr>
             in Some (sint (pid (procs k9 proc)), k9)))"

text \<open>
  \<open>screen_write_dec\<close> (screen.c): the decimal digits of \<open>n\<close>, most significant first;
  \<open>0\<close> is the single digit \<open>0\<close>. The digits are produced in reverse by
  \<open>while (n > 0) { buffer[i++] = '0' + (n % 10); n /= 10; }\<close> and printed backwards.
\<close>

fun dec_digits_rev :: "nat \<Rightarrow> string" where
  "dec_digits_rev n =
     (if n = 0 then [] else char_of (48 + n mod 10) # dec_digits_rev (n div 10))"

definition dec_chars :: "32 word \<Rightarrow> string" where
  "dec_chars n = (if n = 0 then ''0'' else rev (dec_digits_rev (unat n)))"

definition state_chars :: "process_state_t \<Rightarrow> string" where
  "state_chars s =
     (case s of PROCESS_READY \<Rightarrow> ''READY   ''
              | PROCESS_RUNNING \<Rightarrow> ''RUNNING ''
              | PROCESS_TERMINATED \<Rightarrow> ''TERM    '')"

text \<open>
  The loop of \<open>process_list_processes\<close>: the characters sent to the screen for the
  processes from \<open>proc\<close> on; \<open>None\<close> when the links never reach \<open>NULL\<close>.
\<close>

partial_function (option) process_rows :: "addr \<Rightarrow> kernel \<Rightarrow> string option" where
  "process_rows proc k =
    (if proc = 0 then Some []
     else Option.bind (process_rows (next_p (procs k proc)) k)
            (\<lambda>rest. Some (dec_chars (pid (procs k proc)) @ ''    ''
                           @ state_chars (pstate (procs k proc))
                           @ pname (procs k proc) @ [CHR 0x0A] @ rest)))"

definition process_list_processes :: "kernel \<Rightarrow> string option" where
  "process_list_processes k =
     Option.bind (process_rows (process_queue k) k)
       (\<lambda>rows. Some (''PID  State    Name'' @ [CHR 0x0A] @ ''---  -------  ----'' @ [CHR 0x0A] @ rows))"

text \<open>The names in listing order.\<close>

partial_function (option) process_names :: "addr \<Rightarrow> kernel \<Rightarrow> string list option" where
  "process_names proc k =
    (if proc = 0 then Some []
     else Option.bind (process_names (next_p (procs k proc)) k)
            (\<lambda>rest. Some (pname (procs k proc) # rest)))"

text \<open>
  \<open>kernel_main\<close> initialises the heap, then the process manager. The scenario: three
  processes are created, then listed.
\<close>

definition kernel_init :: "kernel \<Rightarrow> kernel" where
  "kernel_init k = process_init (k\<lparr>kheap := memory_init (kheap k)\<rparr>)"

definition create_abc ::
  "32 word \<Rightarrow> 32 word \<Rightarrow> 32 word \<Rightarrow> kernel \<Rightarrow> (int \<times> int \<times> int \<times> string list \<times> string) option" where
  "create_abc e1 e2 e3 k =
     Option.bind (process_create e1 ''a'' k) (\<lambda>(r1, k1).
     Option.bind (process_create e2 ''b'' k1) (\<lambda>(r2, k2).
     Option.bind (process_create e3 ''c'' k2) (\<lambda>(r3, k3).
     Option.bind (process_names (process_queue k3) k3) (\<lambda>names.
     Option.bind (process_list_processes k3) (\<lambda>out.
     Some (r1, r2, r3, names, out))))))"

text \<open>The state at power-on: zeroed memory and the statics of process.c.\<close>

definition boot_kernel :: kernel where
  "boot_kernel =
     \<lparr>kheap = boot_heap,
      procs = (\<lambda>_. \<lparr>pid = 0, pname = [], pstate = PROCESS_READY, esp = 0, ebp = 0,
                     stack = 0, next_p = 0\<rparr>),
      stack_mem = (\<lambda>_. 0),
      process_queue = 0, current_process = 0, next_pid = 1\<rparr>"

section \<open>VGA text-mode driver (screen.c)\<close>

text \<open>
  The statics of screen.c. \<open>video_memory\<close> gives the 16-bit cell at each offset from
  0xB8000; the display grid is the offsets 0 to 1999, and a write at any other offset
  lands in the memory around it. The cursor coordinates are C \<open>int\<close>s; they are modelled
  as integers, and stay between 0 and 88 in every computation below. \<open>hw_cursor\<close> is the
  position last sent to the CRT controller.
\<close>

record screen =
  video_memory :: "int \<Rightarrow> 16 word"
  cursor_row :: int
  cursor_col :: int
  current_color :: "8 word"
  hw_cursor :: "16 word"

definition MAX_ROWS :: int where
  "MAX_ROWS = 25"

definition MAX_COLS :: int where
  "MAX_COLS = 80"

definition get_offset :: "int \<Rightarrow> int \<Rightarrow> int" where
  "get_offset row col = row * MAX_COLS + col"

text \<open>
  \<open>(current_color << 8) | c\<close>, stored into a \<open>uint16_t\<close>. Both operands are promoted to
  \<open>int\<close>; \<open>char\<close> is signed on this target.
\<close>

definition char_int :: "char \<Rightarrow> int" where
  "char_int c = (if of_char c < (128 :: int) then of_char c else of_char c - 256)"

definition vga_cell :: "8 word \<Rightarrow> char \<Rightarrow> 16 word" where
  "vga_cell color c = word_of_int (push_bit 8 (uint color) OR char_int c)"

definition update_cursor :: "screen \<Rightarrow> screen" where
  "update_cursor s = s\<lparr>hw_cursor := word_of_int (get_offset (cursor_row s) (cursor_col s))\<rparr>"

text \<open>\<open>for (i = lo; i < hi; i++) body\<close>.\<close>

function for_loop :: "int \<Rightarrow> int \<Rightarrow> (int \<Rightarrow> 'a \<Rightarrow> 'a) \<Rightarrow> 'a \<Rightarrow> 'a" where
  "for_loop i hi body s = (if i < hi then for_loop (i + 1) hi body (body i s) else s)"
  by pat_completeness auto
termination
  by (relation "measure (\<lambda>(i, hi, body, s). nat (hi - i))") auto

declare for_loop.simps [simp del]

definition scroll_up :: "screen \<Rightarrow> screen" where
  "scroll_up s =
    (let vm1 = for_loop 0 ((MAX_ROWS - 1) * MAX_COLS)
                 (\<lambda>i vm. vm(i := vm (i + MAX_COLS))) (video_memory s);
         vm2 = for_loop ((MAX_ROWS - 1) * MAX_COLS) (MAX_ROWS * MAX_COLS)
                 (\<lambda>i vm. vm(i := vga_cell (current_color s) CHR '' '')) vm1
     in s\<lparr>video_memory := vm2, cursor_row := MAX_ROWS - 1, cursor_col := 0\<rparr>)"

definition screen_clear :: "screen \<Rightarrow> screen" where
  "screen_clear s =
    (let vm = for_loop 0 (MAX_ROWS * MAX_COLS)
                (\<lambda>i vm. vm(i := vga_cell (current_color s) CHR '' '')) (video_memory s)
     in update_cursor (s\<lparr>video_memory := vm, cursor_row := 0, cursor_col := 0\<rparr>))"

text \<open>The \<open>switch\<close> of \<open>screen_putchar\<close>.\<close>

definition putchar_switch :: "char \<Rightarrow> screen \<Rightarrow> screen" where
  "putchar_switch c s =
    (if c = CHR 0x0A then s\<lparr>cursor_row := cursor_row s + 1, cursor_col := 0\<rparr>
     else if c = CHR 0x0D then s\<lparr>cursor_col := 0\<rparr>
     else if c = CHR 0x08 then
       (if cursor_col s > 0 then
          let s1 = s\<lparr>cursor_col := cursor_col s - 1\<rparr>;
              offset = get_offset (cursor_row s1) (cursor_col s1)
          in s1\<lparr>video_memory := (video_memory s1)(offset := vga_cell (current_color s1) CHR '' '')\<rparr>
        else s)
     else if c = CHR 0x09 then
       (let s1 = s\<lparr>cursor_col := (cursor_col s + 8) AND NOT 7\<rparr>
        in if cursor_col s1 \<ge> MAX_COLS
           then s1\<lparr>cursor_col := 0, cursor_row := cursor_row s1 + 1\<rparr> else s1)
     else
       (let offset = get_offset (cursor_row s) (cursor_col s);
            s1 = s\<lparr>video_memory := (video_memory s)(offset := vga_cell (current_color s) c)\<rparr>
        in s1\<lparr>cursor_col := cursor_col s1 + 1\<rparr>))"

definition screen_putchar :: "char \<Rightarrow> screen \<Rightarrow> screen" where
  "screen_putchar c s =
    (let s1 = putchar_switch c s;
         s2 = (if cursor_col s1 \<ge> MAX_COLS
               then s1\<lparr>cursor_col := 0, cursor_row := cursor_row s1 + 1\<rparr> else s1);
         s3 = (if cursor_row s2 \<ge> MAX_ROWS then scroll_up s2 else s2)
     in update_cursor s3)"

text \<open>
  \<open>screen_write\<close>: the argument is the C string, its characters followed by the
  terminator; an embedded \<open>CHR 0x00\<close> ends it early.
\<close>

fun screen_write :: "string \<Rightarrow> screen \<Rightarrow> screen" where
  "screen_write [] s = s"
| "screen_write (c # cs) s = (if c = CHR 0x00 then s else screen_write cs (screen_putchar c s))"

definition screen_backspace :: "screen \<Rightarrow> screen" where
  "screen_backspace s = screen_putchar (CHR 0x08) s"

definition screen_set_cursor :: "int \<Rightarrow> int \<Rightarrow> screen \<Rightarrow> screen" where
  "screen_set_cursor row col s =
    (let s1 = (if row \<ge> 0 \<and> row < MAX_ROWS then s\<lparr>cursor_row := row\<rparr> else s);
         s2 = (if col \<ge> 0 \<and> col < MAX_COLS then s1\<lparr>cursor_col := col\<rparr> else s1)
     in update_cursor s2)"

text \<open>Calls of the driver's interface, and a sequence of them run in order.\<close>

datatype screen_call =
    Putchar char
  | Write string
  | Backspace
  | Set_cursor int int

fun screen_do :: "screen_call \<Rightarrow> screen \<Rightarrow> screen" where
  "screen_do (Putchar c) s = screen_putchar c s"
| "screen_do (Write cs) s = screen_write cs s"
| "screen_do Backspace s = screen_backspace s"
| "screen_do (Set_cursor row col) s = screen_set_cursor row col s"

definition screen_run :: "screen_call list \<Rightarrow> screen \<Rightarrow> screen" where
  "screen_run calls s = fold screen_do calls s"

text \<open>The cursor lies inside the grid of 25 rows and 80 columns.\<close>

definition cursor_ok :: "screen \<Rightarrow> bool" where
  "cursor_ok s =
     (0 \<le> cursor_row s \<and> cursor_row s \<le> 24 \<and> 0 \<le> cursor_col s \<and> cursor_col s \<le> 79)"

text \<open>A character that \<open>screen_putchar\<close> handles in the \<open>default\<close> branch.\<close>

definition plain :: "char \<Rightarrow> bool" where
  "plain c = (c \<noteq> CHR 0x0A \<and> c \<noteq> CHR 0x0D \<and> c \<noteq> CHR 0x08 \<and> c \<noteq> CHR 0x09)"

text \<open>The cell at a row and column, and the cell a line of text shows in a column.\<close>

definition cell_at :: "screen \<Rightarrow> int \<Rightarrow> int \<Rightarrow> 16 word" where
  "cell_at s row col = video_memory s (get_offset row col)"

definition line_cell :: "8 word \<Rightarrow> string \<Rightarrow> int \<Rightarrow> 16 word" where
  "line_cell color line col =
     (if col < int (length line) then vga_cell color (line ! nat col)
      else vga_cell color CHR '' '')"

text \<open>
  The first \<open>k\<close> rows show the first \<open>k\<close> lines, the rows below are blank, and the
  cursor is at the start of row \<open>k\<close>.
\<close>

definition lines_shown :: "8 word \<Rightarrow> string list \<Rightarrow> nat \<Rightarrow> screen \<Rightarrow> bool" where
  "lines_shown color ls k s =
     (cursor_row s = int k \<and> cursor_col s = 0 \<and> current_color s = color \<and>
      (\<forall>r c. 0 \<le> r \<and> r < 25 \<and> 0 \<le> c \<and> c < 80 \<longrightarrow>
         cell_at s r c = (if r < int k then line_cell color (ls ! nat r) c
                          else vga_cell color CHR '' '')))"

text \<open>Each line written with \<open>screen_putchar\<close>, character by character, then a newline.\<close>

definition write_lines :: "string list \<Rightarrow> screen \<Rightarrow> screen" where
  "write_lines ls s = fold (\<lambda>line. fold screen_putchar (line @ [CHR 0x0A])) ls s"

text \<open>The statics at power-on, over zeroed video memory.\<close>

definition screen_boot :: screen where
  "screen_boot =
     \<lparr>video_memory = (\<lambda>_. 0), cursor_row = 0, cursor_col = 0, current_color = 0x0F,
      hw_cursor = 0\<rparr>"

section \<open>Keyboard driver (keyboard.c)\<close>

text \<open>The two translation tables, 58 entries each; \<open>CHR 0x00\<close> is the entry \<open>0\<close>.\<close>

definition scancode_to_ascii :: "char list" where
  "scancode_to_ascii =
    [CHR 0x00, CHR 0x00] @ ''1234567890-='' @ [CHR 0x08,
     CHR 0x09] @ ''qwertyuiop[]'' @ [CHR 0x0A,
     CHR 0x00] @
    ''asdfghjkl;'' @ [CHR 0x27, CHR 0x60,
     CHR 0x00,
     CHR 0x5C] @ ''zxcvbnm,./'' @
    [CHR 0x00,
     CHR ''*'',
     CHR 0x00,
     CHR '' '']"

definition scancode_to_ascii_shift :: "char list" where
  "scancode_to_ascii_shift =
    [CHR 0x00, CHR 0x00] @ ''!@#$%^&*()_+'' @ [CHR 0x08,
     CHR 0x09] @ ''QWERTYUIOP{}'' @ [CHR 0x0A,
     CHR 0x00] @ ''ASDFGHJKL:'' @ [CHR 0x22, CHR ''~'',
     CHR 0x00, CHR ''|''] @ ''ZXCVBNM<>?'' @ [CHR 0x00, CHR ''*'',
     CHR 0x00, CHR '' '']"

text \<open>
  The statics of keyboard.c. The two indices start at 0 and are only ever assigned
  \<open>(index + 1) % 256\<close>, so they are naturals below 256, where C's \<open>%\<close> is \<open>mod\<close>;
  \<open>key_buffer\<close> gives the character in each cell of \<open>char key_buffer[256]\<close>.
\<close>

record keyboard =
  key_buffer :: "nat \<Rightarrow> char"
  buffer_start :: nat
  buffer_end :: nat
  shift_pressed :: bool

text \<open>\<open>keyboard_handler\<close>; the argument is the byte read from the data port 0x60.\<close>

definition keyboard_handler :: "8 word \<Rightarrow> keyboard \<Rightarrow> keyboard" where
  "keyboard_handler scancode kb =
    (if scancode = 0x2A \<or> scancode = 0x36 then kb\<lparr>shift_pressed := True\<rparr>
     else if scancode = 0xAA \<or> scancode = 0xB6 then kb\<lparr>shift_pressed := False\<rparr>
     else if scancode AND 0x80 \<noteq> 0 then kb
     else
       let ascii =
             (if unat scancode < length scancode_to_ascii
              then (if shift_pressed kb then scancode_to_ascii_shift ! unat scancode
                    else scancode_to_ascii ! unat scancode)
              else CHR 0x00)
       in if ascii \<noteq> CHR 0x00
          then kb\<lparr>key_buffer := (key_buffer kb)(buffer_end kb := ascii),
                  buffer_end := (buffer_end kb + 1) mod 256\<rparr>
          else kb)"

text \<open>
  \<open>keyboard_getchar\<close>. While the two indices are equal the function halts and waits for
  an interrupt: with no interrupt it does not return, which is the value \<open>None\<close>.
\<close>

definition keyboard_getchar :: "keyboard \<Rightarrow> (char \<times> keyboard) option" where
  "keyboard_getchar kb =
    (if buffer_start kb = buffer_end kb then None
     else Some (key_buffer kb (buffer_start kb),
                kb\<lparr>buffer_start := (buffer_start kb + 1) mod 256\<rparr>))"

text \<open>The statics at power-on.\<close>

definition keyboard_boot :: keyboard where
  "keyboard_boot =
     \<lparr>key_buffer = (\<lambda>_. CHR 0x00), buffer_start = 0, buffer_end = 0, shift_pressed = False\<rparr>"

text \<open>
  The unread characters: the cells from \<open>buffer_start\<close> up to \<open>buffer_end\<close>, going round
  the ring.
\<close>

definition unread :: "keyboard \<Rightarrow> string" where
  "unread kb =
     map (\<lambda>i. key_buffer kb ((buffer_start kb + i) mod 256))
       [0 ..< (buffer_end kb + 256 - buffer_start kb) mod 256]"

text \<open>
  Producer and consumer interleaved: an interrupt with a scancode, or a call of
  \<open>keyboard_getchar\<close> that returns at this point. The run gives the characters returned;
  it is \<open>None\<close> when a call finds the indices equal and so cannot return there.
\<close>

datatype kb_event = Irq "8 word" | Getchar

fun kb_run :: "kb_event list \<Rightarrow> keyboard \<Rightarrow> string option" where
  "kb_run [] kb = Some []"
| "kb_run (Irq sc # es) kb = kb_run es (keyboard_handler sc kb)"
| "kb_run (Getchar # es) kb =
     (case keyboard_getchar kb of
        None \<Rightarrow> None
      | Some (c, kb') \<Rightarrow> map_option (Cons c) (kb_run es kb'))"

text \<open>
  The queue of the specification: what a scancode contributes under a given shift state,
  and a first-in first-out queue of characters fed by interrupts and drained by reads.
\<close>

definition key_char :: "bool \<Rightarrow> 8 word \<Rightarrow> char option" where
  "key_char shift sc =
     (if sc \<in> {0x2A, 0x36, 0xAA, 0xB6} \<or> bit sc 7 \<or> 58 \<le> unat sc then None
      else let c = (if shift then scancode_to_ascii_shift else scancode_to_ascii) ! unat sc
           in if c = CHR 0x00 then None else Some c)"

definition key_shift :: "bool \<Rightarrow> 8 word \<Rightarrow> bool" where
  "key_shift shift sc =
     (if sc = 0x2A \<or> sc = 0x36 then True
      else if sc = 0xAA \<or> sc = 0xB6 then False else shift)"

fun fifo_run :: "kb_event list \<Rightarrow> bool \<Rightarrow> string \<Rightarrow> string option" where
  "fifo_run [] shift q = Some []"
| "fifo_run (Irq sc # es) shift q =
     fifo_run es (key_shift shift sc) (q @ (case key_char shift sc of None \<Rightarrow> [] | Some c \<Rightarrow> [c]))"
| "fifo_run (Getchar # es) shift q =
     (case q of [] \<Rightarrow> None | c # q' \<Rightarrow> map_option (Cons c) (fifo_run es shift q'))"

text \<open>The backlog of unread characters stays below 256 throughout the run.\<close>

fun backlog_ok :: "kb_event list \<Rightarrow> bool \<Rightarrow> string \<Rightarrow> bool" where
  "backlog_ok [] shift q = (length q < 256)"
| "backlog_ok (Irq sc # es) shift q =
     (length q < 256 \<and>
      backlog_ok es (key_shift shift sc)
        (q @ (case key_char shift sc of None \<Rightarrow> [] | Some c \<Rightarrow> [c])))"
| "backlog_ok (Getchar # es) shift q = (length q < 256 \<and> backlog_ok es shift (tl q))"

section \<open>Boot sectors (boot.asm, boot/boot.asm)\<close>

text \<open>
  The two stage-1 loaders as instruction lists for a small real-mode machine. An
  instruction's address is its index in the list; a label is the index of the instruction
  after it. \<open>call print\<close> (\<open>pusha\<close>, a loop of \<open>lodsb\<close> and \<open>int 0x10\<close> up to the terminator,
  \<open>popa\<close>, \<open>ret\<close>) is one step: it sends the string at \<open>SI\<close> to the teletype and keeps the
  registers; its last flag-setting instruction compares the terminator with itself.

  Two things the loaders rely on without establishing them are part of the state.
  Neither loader executes \<open>cld\<close>, and \<open>lodsb\<close> walks forwards only when the direction flag
  is clear: with the flag set the print routine scans backwards from the string, which is
  not modelled and recorded as a fault. And \<open>mov [BOOT_DRIVE], dl\<close> is the first
  instruction, executed before \<open>DS\<close> is zeroed: the byte is stored through the \<open>DS\<close> the
  firmware left, and read back later through \<open>DS = 0\<close>, where the sector image holds
  \<open>db 0\<close>. A store through a \<open>DS\<close> that lands inside the 512 bytes of the sector, or
  wraps past the first megabyte, changes the loader itself; that too is not modelled and
  recorded as a fault.
\<close>

datatype reg8 = AL | AH | BL | BH | CL | CH | DL | DH

datatype sreg = DS | ES | SS

datatype instr =
    Mov_mem_dl
  | Mov_dl_mem
  | Cli
  | Sti
  | Hlt
  | Xor_ax_ax
  | Mov_sreg_ax sreg
  | Mov_sp "16 word"
  | Mov_si string
  | Mov_r8 reg8 "8 word"
  | Mov_bx "16 word"
  | Call_print
  | Call nat
  | Ret
  | Pusha
  | Popa
  | Int13
  | Jc nat
  | Cmp_al "8 word"
  | Jne nat
  | Jmp_out "16 word"
  | Jmp_self

datatype frame = Return_to nat | Saved "reg8 \<Rightarrow> 8 word" string

text \<open>
  The machine state. \<open>left_to\<close> is the address control was transferred to outside the boot
  sector, once that has happened; \<open>fault\<close> records a \<open>ret\<close> or \<open>popa\<close> on a stack that does
  not hold what it pops, execution past the last instruction, or one of the two
  unmodelled situations above. \<open>drive_byte seg\<close> is the byte at \<open>seg:BOOT_DRIVE\<close>, \<open>df\<close>
  the direction flag. \<open>tty\<close> is what the firmware's teletype service has printed,
  \<open>disk_reads\<close> the number of \<open>int 0x13\<close> calls.
\<close>

record cpu =
  pc :: nat
  regs8 :: "reg8 \<Rightarrow> 8 word"
  si :: string
  seg :: "sreg \<Rightarrow> 16 word"
  stack_base :: "16 word"
  stack :: "frame list"
  cf :: bool
  zf :: bool
  iflag :: bool
  df :: bool
  halted :: bool
  left_to :: "16 word option"
  fault :: bool
  drive_byte :: "16 word \<Rightarrow> 8 word"
  tty :: string
  disk_reads :: nat

text \<open>
  The firmware and the machine around the loader: the disk service maps the registers of
  the request to the carry flag, the status in \<open>AH\<close> and the sector count in \<open>AL\<close>;
  \<open>hlt_resumes\<close> says whether a halted CPU with interrupts masked is woken again (a
  non-maskable interrupt, or an emulator in which \<open>hlt\<close> has no effect).
\<close>

record firmware =
  int13 :: "(reg8 \<Rightarrow> 8 word) \<Rightarrow> bool \<times> 8 word \<times> 8 word"
  hlt_resumes :: bool

definition KERNEL_OFFSET :: "16 word" where
  "KERNEL_OFFSET = 0x1000"

text \<open>The characters of a C string up to its terminator.\<close>

fun c_string :: "string \<Rightarrow> string" where
  "c_string [] = []"
| "c_string (c # cs) = (if c = CHR 0x00 then [] else c # c_string cs)"

text \<open>
  The segments through which a byte stored at offset \<open>BOOT_DRIVE\<close> (between 0x7C00 and
  0x7DFF) lands on \<open>BOOT_DRIVE\<close> itself, or outside the sector and below one megabyte.
\<close>

definition store_clear :: "16 word \<Rightarrow> bool" where
  "store_clear ds = (ds = 0 \<or> (0x20 \<le> ds \<and> ds \<le> 0xF820))"

fun exec :: "firmware \<Rightarrow> instr \<Rightarrow> cpu \<Rightarrow> cpu" where
  "exec fw Mov_mem_dl s =
     (if store_clear (seg s DS)
      then s\<lparr>drive_byte := (drive_byte s)(seg s DS := regs8 s DL), pc := pc s + 1\<rparr>
      else s\<lparr>fault := True\<rparr>)"
| "exec fw Mov_dl_mem s =
     s\<lparr>regs8 := (regs8 s)(DL := drive_byte s (seg s DS)), pc := pc s + 1\<rparr>"
| "exec fw Cli s = s\<lparr>iflag := False, pc := pc s + 1\<rparr>"
| "exec fw Sti s = s\<lparr>iflag := True, pc := pc s + 1\<rparr>"
| "exec fw Hlt s =
     (if hlt_resumes fw then s\<lparr>halted := False, pc := pc s + 1\<rparr> else s\<lparr>halted := True\<rparr>)"
| "exec fw Xor_ax_ax s =
     s\<lparr>regs8 := (regs8 s)(AL := 0, AH := 0), cf := False, zf := True, pc := pc s + 1\<rparr>"
| "exec fw (Mov_sreg_ax r) s =
     s\<lparr>seg := (seg s)(r := word_cat (regs8 s AH) (regs8 s AL)), pc := pc s + 1\<rparr>"
| "exec fw (Mov_sp v) s = s\<lparr>stack_base := v, stack := [], pc := pc s + 1\<rparr>"
| "exec fw (Mov_si msg) s = s\<lparr>si := msg, pc := pc s + 1\<rparr>"
| "exec fw (Mov_r8 r v) s = s\<lparr>regs8 := (regs8 s)(r := v), pc := pc s + 1\<rparr>"
| "exec fw (Mov_bx v) s =
     s\<lparr>regs8 := (regs8 s)(BL := ucast v, BH := ucast (drop_bit 8 v)), pc := pc s + 1\<rparr>"
| "exec fw Call_print s =
     (if df s then s\<lparr>fault := True\<rparr>
      else s\<lparr>tty := tty s @ c_string (si s), cf := False, zf := True, pc := pc s + 1\<rparr>)"
| "exec fw (Call t) s = s\<lparr>stack := Return_to (pc s + 1) # stack s, pc := t\<rparr>"
| "exec fw Ret s =
     (case stack s of
        Return_to a # rest \<Rightarrow> s\<lparr>stack := rest, pc := a\<rparr>
      | _ \<Rightarrow> s\<lparr>fault := True\<rparr>)"
| "exec fw Pusha s = s\<lparr>stack := Saved (regs8 s) (si s) # stack s, pc := pc s + 1\<rparr>"
| "exec fw Popa s =
     (case stack s of
        Saved r m # rest \<Rightarrow> s\<lparr>stack := rest, regs8 := r, si := m, pc := pc s + 1\<rparr>
      | _ \<Rightarrow> s\<lparr>fault := True\<rparr>)"
| "exec fw Int13 s =
     (case int13 fw (regs8 s) of
        (c, ah, al) \<Rightarrow>
          s\<lparr>cf := c, regs8 := (regs8 s)(AH := ah, AL := al),
             disk_reads := disk_reads s + 1, pc := pc s + 1\<rparr>)"
| "exec fw (Jc t) s = (if cf s then s\<lparr>pc := t\<rparr> else s\<lparr>pc := pc s + 1\<rparr>)"
| "exec fw (Cmp_al v) s =
     s\<lparr>zf := (regs8 s AL = v), cf := (regs8 s AL < v), pc := pc s + 1\<rparr>"
| "exec fw (Jne t) s = (if \<not> zf s then s\<lparr>pc := t\<rparr> else s\<lparr>pc := pc s + 1\<rparr>)"
| "exec fw (Jmp_out a) s = s\<lparr>left_to := Some a\<rparr>"
| "exec fw Jmp_self s = s"

text \<open>One instruction; nothing more happens once control has left or a fault occurred.\<close>

definition step :: "firmware \<Rightarrow> instr list \<Rightarrow> cpu \<Rightarrow> cpu" where
  "step fw prog s =
     (if left_to s \<noteq> None \<or> fault s then s
      else if pc s < length prog then exec fw (prog ! pc s) s
      else s\<lparr>fault := True\<rparr>)"

fun run :: "firmware \<Rightarrow> instr list \<Rightarrow> nat \<Rightarrow> cpu \<Rightarrow> cpu" where
  "run fw prog 0 s = s"
| "run fw prog (Suc n) s = run fw prog n (step fw prog s)"

subsection \<open>Profile B: boot.asm\<close>

definition msg_loading_b :: string where
  "msg_loading_b = ''Loading Stage 2...'' @ [CHR 0x0D, CHR 0x0A, CHR 0x00]"

definition msg_loaded_b :: string where
  "msg_loaded_b = ''Stage 2 loaded!'' @ [CHR 0x0D, CHR 0x0A, CHR 0x00]"

definition msg_disk_error_b :: string where
  "msg_disk_error_b = ''Disk read error!'' @ [CHR 0x0D, CHR 0x0A, CHR 0x00]"

definition load_stage2 :: nat where
  "load_stage2 = 12"

definition disk_error_b :: nat where
  "disk_error_b = 28"

definition boot_b :: "instr list" where
  "boot_b =
    [Mov_mem_dl,
     Cli,
     Xor_ax_ax,
     Mov_sreg_ax DS,
     Mov_sreg_ax ES,
     Mov_sreg_ax SS,
     Mov_sp 0x7C00,
     Sti,
     Mov_si msg_loading_b,
     Call_print,
     Call load_stage2,
     Jmp_out KERNEL_OFFSET,
     \<comment> \<open>\<open>load_stage2:\<close>\<close>
     Pusha,
     Mov_r8 AH 0x02,
     Mov_r8 AL 15,
     Mov_r8 CH 0x00,
     Mov_r8 CL 0x02,
     Mov_r8 DH 0x00,
     Mov_dl_mem,
     Mov_bx KERNEL_OFFSET,
     Int13,
     Jc disk_error_b,
     Cmp_al 15,
     Jne disk_error_b,
     Mov_si msg_loaded_b,
     Call_print,
     Popa,
     Ret,
     \<comment> \<open>\<open>.disk_error:\<close>\<close>
     Mov_si msg_disk_error_b,
     Call_print,
     Jmp_self]"

subsection \<open>Profile A: boot/boot.asm\<close>

definition msg_boot_a :: string where
  "msg_boot_a = ''AnnotatOS Bootloader'' @ [CHR 0x0D, CHR 0x0A, CHR 0x00]"

definition msg_loading_a :: string where
  "msg_loading_a = ''Loading kernel...'' @ [CHR 0x0D, CHR 0x0A, CHR 0x00]"

definition msg_success_a :: string where
  "msg_success_a = ''Kernel loaded, starting...'' @ [CHR 0x0D, CHR 0x0A, CHR 0x00]"

definition msg_error_a :: string where
  "msg_error_a = ''DISK ERROR - System halted safely'' @ [CHR 0x0D, CHR 0x0A, CHR 0x00]"

definition disk_error_a :: nat where
  "disk_error_a = 26"

definition boot_a :: "instr list" where
  "boot_a =
    [Mov_mem_dl,
     Cli,
     Xor_ax_ax,
     Mov_sreg_ax DS,
     Mov_sreg_ax ES,
     Mov_sreg_ax SS,
     Mov_sp 0x7C00,
     Sti,
     Mov_si msg_boot_a,
     Call_print,
     Mov_si msg_loading_a,
     Call_print,
     Mov_r8 AH 0x02,
     Mov_r8 AL 10,
     Mov_r8 CH 0,
     Mov_r8 CL 2,
     Mov_r8 DH 0,
     Mov_dl_mem,
     Mov_bx KERNEL_OFFSET,
     Int13,
     Jc disk_error_a,
     Cmp_al 10,
     Jne disk_error_a,
     Mov_si msg_success_a,
     Call_print,
     Jmp_out KERNEL_OFFSET,
     \<comment> \<open>\<open>disk_error:\<close>\<close>
     Mov_si msg_error_a,
     Call_print,
     Cli,
     Hlt,
     Jmp_self]"

subsection \<open>Entry and the disk request\<close>

text \<open>
  The state in which the firmware enters the boot sector: the boot drive in \<open>DL\<close>,
  interrupts enabled, the sector image at \<open>0000:7C00\<close> (so the byte at \<open>0000:BOOT_DRIVE\<close>
  is 0), and the other registers, the segments and the flags as the firmware left them.
\<close>

definition entry :: "8 word \<Rightarrow> cpu \<Rightarrow> cpu" where
  "entry drive s0 =
     s0\<lparr>pc := 0, regs8 := (regs8 s0)(DL := drive), iflag := True, halted := False,
        left_to := None, fault := False, drive_byte := (drive_byte s0)(0 := 0),
        tty := [], disk_reads := 0, stack := []\<rparr>"

text \<open>
  The drive the loaders ask the firmware to read: the one passed in \<open>DL\<close> when the
  firmware entered with \<open>DS = 0\<close>, and otherwise drive 0, the byte of the image.
\<close>

definition issued_drive :: "8 word \<Rightarrow> cpu \<Rightarrow> 8 word" where
  "issued_drive drive s0 = (if seg s0 DS = 0 then drive else 0)"

text \<open>The registers both loaders pass to \<open>int 0x13\<close>, for a sector count and a drive.\<close>

definition disk_request :: "8 word \<Rightarrow> 8 word \<Rightarrow> reg8 \<Rightarrow> 8 word" where
  "disk_request count drive r =
     (case r of AH \<Rightarrow> 0x02 | AL \<Rightarrow> count | CH \<Rightarrow> 0 | CL \<Rightarrow> 2 | DH \<Rightarrow> 0 | DL \<Rightarrow> drive
              | BH \<Rightarrow> 0x10 | BL \<Rightarrow> 0)"

text \<open>The read failed: carry set, or a sector count other than the requested one.\<close>

definition read_failed :: "firmware \<Rightarrow> 8 word \<Rightarrow> 8 word \<Rightarrow> bool" where
  "read_failed fw count drive =
     (case int13 fw (disk_request count drive) of (c, ah, al) \<Rightarrow> c \<or> al \<noteq> count)"



definition fw_good :: firmware where
  "fw_good = \<lparr>int13 = (\<lambda>r. (False, 0, r AL)), hlt_resumes = False\<rparr>"

definition cpu_zero :: cpu where
  "cpu_zero =
     \<lparr>pc = 0, regs8 = (\<lambda>_. 0), si = [], seg = (\<lambda>_. 0), stack_base = 0, stack = [],
      cf = False, zf = False, iflag = True, df = False, halted = False, left_to = None,
      fault = False, drive_byte = (\<lambda>_. 0), tty = [], disk_reads = 0\<rparr>"

text \<open>The same, entered with a data segment other than 0.\<close>

definition cpu_far :: cpu where
  "cpu_far = cpu_zero\<lparr>seg := (\<lambda>_. 0x9ABC)\<rparr>"

text \<open>A firmware whose disk service fails for drive 0x80 only.\<close>

definition fw_fails_hd :: firmware where
  "fw_fails_hd = \<lparr>int13 = (\<lambda>r. (r DL = 0x80, 0, r AL)), hlt_resumes = False\<rparr>"




section \<open>Heap allocator: lemmas\<close>

subsection \<open>Rounding\<close>

lemma and_not3_shift: "(x::32 word) AND NOT 3 = push_bit 2 (drop_bit 2 x)"
proof -
  have m: "(3::32 word) = mask 2" by (simp add: mask_eq_exp_minus_1)
  have s: "\<And>n::nat. 2 \<le> n \<Longrightarrow> Suc (Suc (n - 2)) = n" by simp
  have "x AND NOT (mask 2) = push_bit 2 (drop_bit 2 x)"
    by (rule bit_eqI) (auto simp add: bit_simps s not_less)
  then show ?thesis unfolding m .
qed

lemma unat_lt32: "unat (a::32 word) < 4294967296"
  using unsigned_less [of a, where 'a = nat] by simp

lemma unat_and_not3: "unat ((x::32 word) AND NOT 3) = unat x div 4 * 4"
proof -
  have "unat x div 4 * 4 \<le> unat x" by simp
  with unat_lt32 [of x] have lt: "unat x div 4 * 4 < 2 ^ 32" by simp
  have "unat (push_bit 2 (drop_bit 2 x)) = take_bit 32 (push_bit 2 (unat (drop_bit 2 x)))"
    by (simp add: unsigned_push_bit_eq)
  also have "\<dots> = take_bit 32 (unat x div 4 * 4)"
    by (simp add: unat_drop_bit_eq drop_bit_eq_div push_bit_eq_mult unat_div)
  also have "\<dots> = unat x div 4 * 4"
    using lt by (simp add: take_bit_nat_eq_self)
  finally show ?thesis unfolding and_not3_shift .
qed

lemma align4_unat: "unat R + 3 < 2 ^ 32 \<Longrightarrow> unat (align4 R) = round_up4 (unat R)"
proof -
  assume a: "unat R + 3 < 2 ^ 32"
  have "unat (R + 3) = unat R + 3"
    using a by (simp add: unat_word_ariths)
  then show ?thesis unfolding align4_def round_up4_def unat_and_not3 by simp
qed

lemma round_up4_ge: "n \<le> round_up4 n"
  unfolding round_up4_def by presburger

lemma round_up4_lt: "round_up4 n < n + 4"
  unfolding round_up4_def by presburger

lemma round_up4_mono: "m \<le> n \<Longrightarrow> round_up4 m \<le> round_up4 n"
  unfolding round_up4_def by presburger

lemma round_up4_fix: "round_up4 (4 * k) = 4 * k"
  unfolding round_up4_def by presburger

lemma align4_w32:
  assumes "unat R + 3 < 2 ^ 32"
  shows "align4 R = w32 (round_up4 (unat R))"
  using align4_unat [OF assms, symmetric] by (simp add: w32_def)

subsection \<open>Words given by naturals\<close>

lemma w32_add: "w32 a + w32 b = w32 (a + b)"
  by (simp add: w32_def)

lemma w32_add_num: "w32 a + numeral k = w32 (a + numeral k)"
  by (simp add: w32_def)

lemma w32_num_add: "numeral k + w32 a = w32 (numeral k + a)"
  by (simp add: w32_def)

lemma w32_sub: "b \<le> a \<Longrightarrow> w32 a - w32 b = w32 (a - b)"
  by (simp add: w32_def)

lemma w32_sub_num: "numeral k \<le> a \<Longrightarrow> w32 a - numeral k = w32 (a - numeral k)"
  by (simp add: w32_def)

lemma unat_w32: "a < 4294967296 \<Longrightarrow> unat (w32 a) = a"
  by (simp add: w32_def unat_of_nat)

lemma w32_eq: "a < 4294967296 \<Longrightarrow> b < 4294967296 \<Longrightarrow> (w32 a = w32 b) = (a = b)"
  by (metis unat_w32)

lemma w32_eq0: "a < 4294967296 \<Longrightarrow> (w32 a = 0) = (a = 0)"
  using w32_eq [of a 0] by (simp add: w32_def)

lemma w32_le: "a < 4294967296 \<Longrightarrow> b < 4294967296 \<Longrightarrow> (w32 a \<le> w32 b) = (a \<le> b)"
  by (simp add: word_le_nat_alt unat_w32)

lemma w32_less: "a < 4294967296 \<Longrightarrow> b < 4294967296 \<Longrightarrow> (w32 a < w32 b) = (a < b)"
  by (simp add: word_less_nat_alt unat_w32)

lemma w32_unat: "w32 (unat w) = w"
  by (simp add: w32_def)

lemmas w32_simps = w32_add w32_add_num w32_num_add w32_sub w32_sub_num unat_w32 w32_eq w32_eq0
  w32_le w32_less less_diff_conv

lemma heap_start_w32: "heap_start = w32 1048576"
  by (simp add: heap_start_def KERNEL_HEAP_START_def w32_def)

lemma KERNEL_HEAP_SIZE_w32: "KERNEL_HEAP_SIZE = w32 1048576"
  by (simp add: KERNEL_HEAP_SIZE_def w32_def)

subsection \<open>One turn of each loop\<close>

lemma kmalloc_scan_null: "kmalloc_scan sz 0 h = Some (0, h)"
  by (subst kmalloc_scan.simps) simp

lemma kmalloc_scan_hit:
  "current \<noteq> 0 \<Longrightarrow> is_free (blocks h current) \<Longrightarrow> sz \<le> size_b (blocks h current)
   \<Longrightarrow> kmalloc_scan sz current h = Some (current + header, kmalloc_take sz current h)"
  by (subst kmalloc_scan.simps) simp

lemma kmalloc_scan_skip:
  "current \<noteq> 0 \<Longrightarrow> \<not> (is_free (blocks h current) \<and> sz \<le> size_b (blocks h current))
   \<Longrightarrow> kmalloc_scan sz current h = kmalloc_scan sz (next_b (blocks h current)) h"
  by (subst kmalloc_scan.simps) auto

lemma kfree_coalesce_stop:
  "current = 0 \<or> next_b (blocks h current) = 0 \<Longrightarrow> kfree_coalesce current h = Some h"
  by (subst kfree_coalesce.simps) auto

lemma kfree_coalesce_merge:
  "current \<noteq> 0 \<Longrightarrow> next_b (blocks h current) \<noteq> 0 \<Longrightarrow> is_free (blocks h current)
   \<Longrightarrow> is_free (blocks h (next_b (blocks h current)))
   \<Longrightarrow> kfree_coalesce current h =
     kfree_coalesce current
       (let h1 = set_size current
                      (size_b (blocks h current)
                         + (header + size_b (blocks h (next_b (blocks h current))))) h
        in set_next current (next_b (blocks h1 (next_b (blocks h1 current)))) h1)"
  by (subst kfree_coalesce.simps) (simp add: Let_def)

lemma kfree_coalesce_next:
  "current \<noteq> 0 \<Longrightarrow> next_b (blocks h current) \<noteq> 0 \<Longrightarrow>
   \<not> (is_free (blocks h current) \<and> is_free (blocks h (next_b (blocks h current))))
   \<Longrightarrow> kfree_coalesce current h = kfree_coalesce (next_b (blocks h current)) h"
  by (subst kfree_coalesce.simps) auto

lemma block_list_null: "block_list 0 h = Some []"
  by (subst block_list.simps) simp

lemma block_list_step:
  "a \<noteq> 0 \<Longrightarrow> block_list a h =
     Option.bind (block_list (next_b (blocks h a)) h)
       (\<lambda>rest. Some ((a, unat (size_b (blocks h a)), is_free (blocks h a)) # rest))"
  by (subst block_list.simps) simp

lemmas heap_exec = kmalloc_scan_null kmalloc_scan_hit kmalloc_scan_skip
  kfree_coalesce_stop kfree_coalesce_merge kfree_coalesce_next block_list_null block_list_step
  kmalloc_take_def kmalloc_split_def set_size_def set_is_free_def set_next_def Let_def
  header_def

lemma chain_block_list:
  "chain h a bs \<Longrightarrow> block_list a h = Some (map (\<lambda>(b, s, f). (b, unat s, f)) bs)"
proof (induction bs arbitrary: a)
  case Nil
  then show ?case by (simp add: block_list_null)
next
  case (Cons x bs)
  obtain b s f where x: "x = (b, s, f)" by (cases x)
  from Cons.prems x have "a \<noteq> 0" and "chain h (next_b (blocks h a)) bs"
    and "a = b" and "size_b (blocks h a) = s" and "is_free (blocks h a) = f"
    by auto
  then show ?case
    using Cons.IH [of "next_b (blocks h a)"] x by (simp add: block_list_step)
qed

subsection \<open>The scan is first fit\<close>

lemma kmalloc_scan_chain:
  "chain h a bs \<Longrightarrow>
   kmalloc_scan sz a h =
     (case first_fit sz bs of
        None \<Rightarrow> Some (0, h)
      | Some b \<Rightarrow> Some (b + header, kmalloc_take sz b h))"
proof (induction bs arbitrary: a)
  case Nil
  then show ?case by (simp add: kmalloc_scan_null)
next
  case (Cons x bs)
  obtain b s f where x: "x = (b, s, f)" by (cases x)
  from Cons.prems x have a: "a \<noteq> 0" "a = b" "size_b (blocks h a) = s" "is_free (blocks h a) = f"
    and rest: "chain h (next_b (blocks h a)) bs"
    by auto
  show ?case
  proof (cases "f \<and> sz \<le> s")
    case True
    then show ?thesis using a x by (simp add: kmalloc_scan_hit)
  next
    case False
    then have "kmalloc_scan sz a h = kmalloc_scan sz (next_b (blocks h a)) h"
      using a by (intro kmalloc_scan_skip) auto
    then show ?thesis using False x Cons.IH [OF rest] by auto
  qed
qed

subsection \<open>Allocation from a fresh heap\<close>

lemma kmalloc_fresh_w32:
  assumes "R \<noteq> 0" and "align4 R = w32 r" and "r + 40 < s" and "s \<le> 4293918720"
  shows "\<exists>h'. kmalloc R (memory_init_sized (w32 s) h) = Some (w32 1048588, h')
    \<and> free_list h' = heap_start
    \<and> chain h' heap_start [(heap_start, w32 r, False), (w32 (1048588 + r), w32 (s - 24 - r), True)]
    \<and> total_allocated h' = total_allocated h + w32 r"
  using assms
  by (simp add: kmalloc_def memory_init_sized_def heap_start_w32 heap_exec w32_simps)

lemma kmalloc_fresh_blocks:
  assumes R: "0 < unat R" and fit: "round_up4 (unat R) + 40 < unat S"
    and space: "unat S \<le> 4293918720"
  shows "\<exists>h'. kmalloc R (memory_init_sized S h) = Some (w32 1048588, h')
    \<and> block_list (free_list h') h' =
         Some [(heap_start, round_up4 (unat R), False),
               (w32 (1048588 + round_up4 (unat R)), unat S - 24 - round_up4 (unat R), True)]
    \<and> total_allocated h' = total_allocated h + w32 (round_up4 (unat R))"
proof -
  let ?r = "round_up4 (unat R)"
  have "unat R \<le> ?r" by (rule round_up4_ge)
  with fit space have small: "unat R + 3 < 2 ^ 32" by simp
  have R0: "R \<noteq> 0" using R by auto
  from kmalloc_fresh_w32 [OF R0 align4_w32 [OF small] fit space, of h]
  obtain h' where k: "kmalloc R (memory_init_sized (w32 (unat S)) h) = Some (w32 1048588, h')"
    and fl: "free_list h' = heap_start"
    and ch: "chain h' heap_start
               [(heap_start, w32 ?r, False), (w32 (1048588 + ?r), w32 (unat S - 24 - ?r), True)]"
    and ta: "total_allocated h' = total_allocated h + w32 ?r"
    by blast
  from chain_block_list [OF ch] fit space have "block_list (free_list h') h' =
      Some [(heap_start, ?r, False), (w32 (1048588 + ?r), unat S - 24 - ?r, True)]"
    by (simp add: fl unat_w32)
  with k ta show ?thesis by (auto simp add: w32_unat)
qed

text \<open>
  C3, amended. On a freshly initialised heap of size \<open>S\<close> (lying inside the 32-bit address
  space), a request of \<open>R > 0\<close> bytes whose rounded size plus two headers plus 16 is below
  \<open>S\<close> returns the block right after the first header; its usable size is \<open>R\<close> rounded up
  to a multiple of four, and a second, free block of size \<open>S - 2 * header - R(rounded)\<close>
  follows it.
\<close>

theorem kmalloc_fresh_split:
  assumes "0 < unat R"
    and "round_up4 (unat R) + 2 * unat header + 16 < unat S"
    and "unat heap_start + unat S \<le> 2 ^ 32"
  shows "\<exists>h'. kmalloc R (memory_init_sized S h) = Some (heap_start + header, h')
    \<and> block_list (free_list h') h' =
         Some [(heap_start, round_up4 (unat R), False),
               (heap_start + header + of_nat (round_up4 (unat R)),
                unat S - 2 * unat header - round_up4 (unat R), True)]"
proof -
  have hd: "unat header = 12" by (simp add: header_def)
  have hs: "unat heap_start = 1048576" by (simp add: heap_start_def KERNEL_HEAP_START_def)
  have p: "heap_start + header = w32 1048588"
    by (simp add: heap_start_w32 header_def w32_simps)
  have q: "w32 1048588 + of_nat (round_up4 (unat R)) = w32 (1048588 + round_up4 (unat R))"
    by (simp add: w32_def)
  from assms kmalloc_fresh_blocks [of R S h] show ?thesis
    by (simp add: hd hs p q) blast
qed

theorem kmalloc_fresh_split_witness:
  "0 < unat (100 :: 32 word)
   \<and> round_up4 (unat (100 :: 32 word)) + 2 * unat header + 16 < unat KERNEL_HEAP_SIZE
   \<and> unat heap_start + unat KERNEL_HEAP_SIZE \<le> 2 ^ 32
   \<and> blocks_after (kmalloc 100 (memory_init boot_heap))
       = Some [(0x100000, 100, False), (0x100070, 1048452, True)]"
proof -
  have a: "0 < unat (100 :: 32 word)" by simp
  have r: "round_up4 100 = 100" by (simp add: round_up4_def)
  have b: "round_up4 (unat (100 :: 32 word)) + 2 * unat header + 16 < unat KERNEL_HEAP_SIZE"
    by (simp add: r header_def KERNEL_HEAP_SIZE_def)
  have c: "unat heap_start + unat KERNEL_HEAP_SIZE \<le> 2 ^ 32"
    by (simp add: heap_start_def KERNEL_HEAP_START_def KERNEL_HEAP_SIZE_def)
  from kmalloc_fresh_split [OF a b c, of boot_heap] a b c show ?thesis
    by (auto simp add: blocks_after_def memory_init_def r header_def heap_start_def
        KERNEL_HEAP_START_def KERNEL_HEAP_SIZE_def)
qed

text \<open>
  C3 as stated fails on the kernel's own heap: for \<open>S = 0x100000\<close> and \<open>R = 100\<close> the
  hypothesis \<open>R + header + 16 < S\<close> holds, but the free block left behind has 1048452
  bytes, one header less than \<open>S - header - R = 1048464\<close>.
\<close>

theorem kmalloc_fresh_split_counterexample:
  "unat (100 :: 32 word) + unat header + 16 < unat KERNEL_HEAP_SIZE
   \<and> blocks_after (kmalloc 100 (memory_init boot_heap))
       = Some [(0x100000, 100, False), (0x100070, 1048452, True)]
   \<and> (1048452 :: nat) \<noteq> unat KERNEL_HEAP_SIZE - unat header - round_up4 (unat (100 :: 32 word))"
proof -
  have r: "round_up4 100 = 100" by (simp add: round_up4_def)
  have "0 < unat (100 :: 32 word)" "round_up4 (unat (100 :: 32 word)) + 40 < unat KERNEL_HEAP_SIZE"
    "unat KERNEL_HEAP_SIZE \<le> 4293918720"
    by (simp_all add: r KERNEL_HEAP_SIZE_def)
  from kmalloc_fresh_blocks [OF this, of boot_heap] show ?thesis
    by (auto simp add: blocks_after_def memory_init_def r header_def heap_start_def
        KERNEL_HEAP_START_def KERNEL_HEAP_SIZE_def w32_def)
qed

text \<open>
  C10. \<open>kfree(NULL)\<close> returns at once: the heap (every header, the list head and the
  allocated-byte counter) is the one it was called with.
\<close>

theorem kfree_null_noop: "kfree 0 h = Some h"
  by (simp add: kfree_def)

subsection \<open>Three blocks, two of them freed\<close>

lemma coalesce_scenario_w32:
  assumes "R \<noteq> 0" and "align4 R = w32 r" and "3 * r + 64 < 1048576"
  shows "\<exists>h5. coalesce_scenario R ord h0
           = Some (w32 1048588, w32 (1048600 + r), w32 (1048612 + 2 * r), h5)
    \<and> free_list h5 = heap_start
    \<and> chain h5 heap_start
         [(heap_start, w32 (2 * r + 12), True), (w32 (1048600 + 2 * r), w32 r, False),
          (w32 (1048612 + 3 * r), w32 (1048528 - 3 * r), True)]"
proof (cases ord)
  case True
  with assms show ?thesis
    by (simp add: coalesce_scenario_def kmalloc_def kfree_def memory_init_def
        KERNEL_HEAP_SIZE_w32 memory_init_sized_def heap_start_w32 heap_exec w32_simps)
next
  case False
  with assms show ?thesis
    by (simp add: coalesce_scenario_def kmalloc_def kfree_def memory_init_def
        KERNEL_HEAP_SIZE_w32 memory_init_sized_def heap_start_w32 heap_exec w32_simps)
qed

lemma kmalloc_after_scenario_w32:
  assumes "R \<noteq> 0" and "align4 R = w32 r" and "3 * r + 64 < 1048576"
    and "M \<noteq> 0" and "align4 M = w32 m" and "m < 4294967296"
  shows "scenario_pointers R ord h0 = Some (w32 1048588, w32 (1048600 + r), w32 (1048612 + 2 * r))
    \<and> alloc_after_scenario R ord h0 M =
         Some (if m \<le> 2 * r + 12 then w32 1048588
               else if m \<le> 1048528 - 3 * r then w32 (1048624 + 3 * r)
               else 0)"
proof -
  from coalesce_scenario_w32 [OF assms(1-3), of ord h0]
  obtain h5 where sc: "coalesce_scenario R ord h0
           = Some (w32 1048588, w32 (1048600 + r), w32 (1048612 + 2 * r), h5)"
    and fl: "free_list h5 = heap_start"
    and ch: "chain h5 heap_start
         [(heap_start, w32 (2 * r + 12), True), (w32 (1048600 + 2 * r), w32 r, False),
          (w32 (1048612 + 3 * r), w32 (1048528 - 3 * r), True)]"
    by blast
  have "kmalloc M h5 = kmalloc_scan (w32 m) heap_start h5"
    using assms(4) by (simp add: kmalloc_def assms(5) fl)
  then have "map_option fst (kmalloc M h5) =
         Some (if m \<le> 2 * r + 12 then w32 1048588
               else if m \<le> 1048528 - 3 * r then w32 (1048624 + 3 * r)
               else 0)"
    unfolding kmalloc_scan_chain [OF ch]
    using assms(3,6)
    by (simp add: heap_start_w32 header_def w32_simps)
  with sc show ?thesis
    by (simp add: alloc_after_scenario_def scenario_pointers_def)
qed

text \<open>
  The three largest sizes for which all three allocations succeed: the third block takes
  the whole rest of the heap, and no free block follows it.
\<close>

lemma coalesce_scenario_tight_w32:
  assumes "R \<noteq> 0" and "align4 R = w32 r" and "1048576 \<le> 3 * r + 64"
    and "3 * r + 36 \<le> 1048576"
  shows "\<exists>h5. coalesce_scenario R ord h0
           = Some (w32 1048588, w32 (1048600 + r), w32 (1048612 + 2 * r), h5)
    \<and> free_list h5 = heap_start
    \<and> chain h5 heap_start
         [(heap_start, w32 (2 * r + 12), True),
          (w32 (1048600 + 2 * r), w32 (1048540 - 2 * r), False)]"
proof (cases ord)
  case True
  with assms show ?thesis
    by (simp add: coalesce_scenario_def kmalloc_def kfree_def memory_init_def
        KERNEL_HEAP_SIZE_w32 memory_init_sized_def heap_start_w32 heap_exec w32_simps)
next
  case False
  with assms show ?thesis
    by (simp add: coalesce_scenario_def kmalloc_def kfree_def memory_init_def
        KERNEL_HEAP_SIZE_w32 memory_init_sized_def heap_start_w32 heap_exec w32_simps)
qed

lemma kmalloc_after_scenario_tight_w32:
  assumes "R \<noteq> 0" and "align4 R = w32 r" and "1048576 \<le> 3 * r + 64"
    and "3 * r + 36 \<le> 1048576"
    and "M \<noteq> 0" and "align4 M = w32 m" and "m < 4294967296"
  shows "scenario_pointers R ord h0 = Some (w32 1048588, w32 (1048600 + r), w32 (1048612 + 2 * r))
    \<and> alloc_after_scenario R ord h0 M = Some (if m \<le> 2 * r + 12 then w32 1048588 else 0)"
proof -
  from coalesce_scenario_tight_w32 [OF assms(1-4), of ord h0]
  obtain h5 where sc: "coalesce_scenario R ord h0
           = Some (w32 1048588, w32 (1048600 + r), w32 (1048612 + 2 * r), h5)"
    and fl: "free_list h5 = heap_start"
    and ch: "chain h5 heap_start
         [(heap_start, w32 (2 * r + 12), True),
          (w32 (1048600 + 2 * r), w32 (1048540 - 2 * r), False)]"
    by blast
  have "kmalloc M h5 = kmalloc_scan (w32 m) heap_start h5"
    using assms(5) by (simp add: kmalloc_def assms(6) fl)
  then have "map_option fst (kmalloc M h5) = Some (if m \<le> 2 * r + 12 then w32 1048588 else 0)"
    unfolding kmalloc_scan_chain [OF ch]
    using assms(4,7)
    by (simp add: heap_start_w32 header_def w32_simps)
  with sc show ?thesis
    by (simp add: alloc_after_scenario_def scenario_pointers_def)
qed

lemma align4_wrap:
  assumes "4294967296 \<le> unat M + 3"
  shows "align4 M = 0"
proof -
  have u: "unat (M + 3) = (unat M + 3) mod 4294967296"
    by (simp add: unat_word_ariths)
  have small: "unat M + 3 - 4294967296 < 3"
    using unat_lt32 [of M] assms by linarith
  have "(unat M + 3) mod 4294967296 = (unat M + 3 - 4294967296) mod 4294967296"
    using assms by (rule le_mod_geq)
  also have "\<dots> = unat M + 3 - 4294967296"
    using small by (intro mod_less) linarith
  finally have "unat (M + 3) < 3"
    using small u by simp
  then have "unat (align4 M) = 0"
    unfolding align4_def unat_and_not3 by simp
  then show ?thesis by (simp add: unat_eq_0)
qed

lemma round_up4_le_multiple: "n \<le> 4 * k \<Longrightarrow> round_up4 n \<le> 4 * k"
  unfolding round_up4_def by presburger

lemma round_up4_multiple: "\<exists>k. round_up4 n = 4 * k"
  unfolding round_up4_def by presburger

text \<open>
  C4, amended. Three allocations of \<open>R > 0\<close> bytes on the fresh heap all succeed when
  \<open>3 * r + 3 * header\<close> is at most the heap size (\<open>r\<close> is \<open>R\<close> rounded up). After the
  release of the first and the second block, in either order, the two are one free block
  of \<open>2 * r + header\<close> bytes. A further request larger than \<open>r\<close> and not larger than
  \<open>2 * r + header\<close> returns the pointer of the first block. A larger request \<open>M\<close> below
  \<open>2 ^ 32 - 3\<close> is served from the free remainder behind the third block when there is
  one (\<open>3 * r + 4 * header + 16\<close> below the heap size) and the rounded size fits in its
  \<open>heap size - 4 * header - 3 * r\<close> bytes; otherwise the result is \<open>NULL\<close>. A request of
  at least \<open>2 ^ 32 - 3\<close> bytes rounds to 0 in 32-bit arithmetic and returns the pointer of
  the first block.
\<close>

theorem kmalloc_after_coalescing:
  assumes "0 < unat R" and "r = round_up4 (unat R)"
    and "3 * r + 3 * unat header \<le> unat KERNEL_HEAP_SIZE"
    and "m = round_up4 (unat M)"
    and "rest = unat KERNEL_HEAP_SIZE - 4 * unat header - 3 * r"
  shows "scenario_pointers R ord h0 =
           Some (heap_start + header, heap_start + 2 * header + of_nat r,
                 heap_start + 3 * header + 2 * of_nat r)
    \<and> (r < unat M \<and> unat M \<le> 2 * r + unat header \<longrightarrow>
          alloc_after_scenario R ord h0 M = Some (heap_start + header))
    \<and> (2 * r + unat header < unat M \<and> unat M + 3 < 2 ^ 32
         \<and> 3 * r + 4 * unat header + 16 < unat KERNEL_HEAP_SIZE \<and> m \<le> rest \<longrightarrow>
          alloc_after_scenario R ord h0 M = Some (heap_start + 4 * header + 3 * of_nat r)
          \<and> heap_start + 4 * header + 3 * of_nat r \<noteq> 0)
    \<and> (2 * r + unat header < unat M \<and> unat M + 3 < 2 ^ 32
         \<and> (3 * r + 4 * unat header + 16 < unat KERNEL_HEAP_SIZE \<longrightarrow> rest < m) \<longrightarrow>
          alloc_after_scenario R ord h0 M = Some 0)
    \<and> (2 ^ 32 \<le> unat M + 3 \<longrightarrow>
          alloc_after_scenario R ord h0 M = Some (heap_start + header))"
proof -
  have hd: "unat header = 12" by (simp add: header_def)
  have ks: "unat KERNEL_HEAP_SIZE = 1048576" by (simp add: KERNEL_HEAP_SIZE_def)
  have fits: "3 * r + 36 \<le> 1048576" using assms(3) hd ks by simp
  have "unat R \<le> r" unfolding assms(2) by (rule round_up4_ge)
  with fits have Rs: "unat R + 3 < 2 ^ 32" by simp
  have R0: "R \<noteq> 0" using assms(1) by auto
  have aR: "align4 R = w32 r" unfolding assms(2) by (rule align4_w32 [OF Rs])
  have Mm: "unat M \<le> m" unfolding assms(4) by (rule round_up4_ge)
  obtain k where k: "r = 4 * k" using round_up4_multiple [of "unat R"] assms(2) by auto
  have up: "unat M \<le> 2 * r + 12 \<Longrightarrow> m \<le> 2 * r + 12"
    unfolding assms(4) using round_up4_le_multiple [of "unat M" "2 * k + 3"] k by simp
  have p1: "heap_start + header = w32 1048588"
    by (simp add: heap_start_w32 header_def w32_simps)
  have p2: "heap_start + 2 * header + of_nat r = w32 (1048600 + r)"
    by (simp add: heap_start_def KERNEL_HEAP_START_def header_def w32_def)
  have p3: "heap_start + 3 * header + 2 * of_nat r = w32 (1048612 + 2 * r)"
    by (simp add: heap_start_def KERNEL_HEAP_START_def header_def w32_def)
  have p4: "heap_start + 4 * header + 3 * of_nat r = w32 (1048624 + 3 * r)"
    by (simp add: heap_start_def KERNEL_HEAP_START_def header_def w32_def)
  have nz: "w32 (1048624 + 3 * r) \<noteq> 0"
    using fits by (simp add: w32_eq0)
  have rest: "rest = 1048528 - 3 * r" using assms(5) hd ks by simp
  have two: "(2 :: nat) ^ 32 = 4294967296" by simp
  have wrap: "alloc_after_scenario R ord h0 M = Some (w32 1048588)
              \<and> scenario_pointers R ord h0
                  = Some (w32 1048588, w32 (1048600 + r), w32 (1048612 + 2 * r))"
    if big: "4294967296 \<le> unat M + 3"
  proof -
    have M0: "M \<noteq> 0" using big by auto
    have a0: "align4 M = w32 0" using align4_wrap [OF big] by (simp add: w32_def)
    show ?thesis
    proof (cases "3 * r + 64 < 1048576")
      case True
      from kmalloc_after_scenario_w32 [OF R0 aR True M0 a0, of ord h0] show ?thesis by simp
    next
      case False
      then have "1048576 \<le> 3 * r + 64" by simp
      from kmalloc_after_scenario_tight_w32 [OF R0 aR this fits M0 a0, of ord h0]
      show ?thesis by simp
    qed
  qed
  have plain: "scenario_pointers R ord h0
                  = Some (w32 1048588, w32 (1048600 + r), w32 (1048612 + 2 * r))
          \<and> alloc_after_scenario R ord h0 M =
              Some (if m \<le> 2 * r + 12 then w32 1048588
                    else if 3 * r + 64 < 1048576 \<and> m \<le> 1048528 - 3 * r
                      then w32 (1048624 + 3 * r) else 0)"
    if M0: "0 < unat M" and small: "unat M + 3 < 4294967296"
  proof -
    have M0': "M \<noteq> 0" using M0 by auto
    have s2: "unat M + 3 < 2 ^ 32" using small by simp
    have aM: "align4 M = w32 m" unfolding assms(4) by (rule align4_w32 [OF s2])
    have "m < unat M + 4" unfolding assms(4) by (rule round_up4_lt)
    with small have m32: "m < 4294967296" by simp
    show ?thesis
    proof (cases "3 * r + 64 < 1048576")
      case True
      from kmalloc_after_scenario_w32 [OF R0 aR True M0' aM m32, of ord h0] True
      show ?thesis by simp
    next
      case False
      then have "1048576 \<le> 3 * r + 64" by simp
      from kmalloc_after_scenario_tight_w32 [OF R0 aR this fits M0' aM m32, of ord h0] False
      show ?thesis by simp
    qed
  qed
  have ptrs: "scenario_pointers R ord h0
                  = Some (w32 1048588, w32 (1048600 + r), w32 (1048612 + 2 * r))"
  proof (cases "4294967296 \<le> unat (1 :: 32 word) + 3")
    case True
    then show ?thesis by simp
  next
    case False
    have "scenario_pointers R ord h0
                  = Some (w32 1048588, w32 (1048600 + r), w32 (1048612 + 2 * r))
          \<and> alloc_after_scenario R ord h0 1 =
              Some (if round_up4 (unat (1 :: 32 word)) \<le> 2 * r + 12 then w32 1048588
                    else if 3 * r + 64 < 1048576
                            \<and> round_up4 (unat (1 :: 32 word)) \<le> 1048528 - 3 * r
                      then w32 (1048624 + 3 * r) else 0)"
    proof (cases "3 * r + 64 < 1048576")
      case True
      have a1: "align4 1 = w32 (round_up4 (unat (1 :: 32 word)))"
        by (rule align4_w32) simp
      have "round_up4 (unat (1 :: 32 word)) < 4294967296" by (simp add: round_up4_def)
      from kmalloc_after_scenario_w32 [OF R0 aR True _ a1 this, of ord h0] True
      show ?thesis by simp
    next
      case False
      then have t: "1048576 \<le> 3 * r + 64" by simp
      have a1: "align4 1 = w32 (round_up4 (unat (1 :: 32 word)))"
        by (rule align4_w32) simp
      have "round_up4 (unat (1 :: 32 word)) < 4294967296" by (simp add: round_up4_def)
      from kmalloc_after_scenario_tight_w32 [OF R0 aR t fits _ a1 this, of ord h0] False
      show ?thesis by simp
    qed
    then show ?thesis by simp
  qed
  have a: "alloc_after_scenario R ord h0 M = Some (w32 1048588)"
    if "r < unat M" "unat M \<le> 2 * r + 12"
  proof -
    have "unat M + 3 < 4294967296" using that(2) fits by simp
    moreover have "0 < unat M" using that(1) by simp
    ultimately show ?thesis using plain up [OF that(2)] by simp
  qed
  have b: "alloc_after_scenario R ord h0 M = Some (w32 (1048624 + 3 * r))"
    if "2 * r + 12 < unat M" "unat M + 3 < 4294967296" "3 * r + 64 < 1048576"
      "m \<le> 1048528 - 3 * r"
  proof -
    have "0 < unat M" using that(1) by simp
    moreover have "\<not> m \<le> 2 * r + 12" using that(1) Mm by simp
    ultimately show ?thesis using plain that by simp
  qed
  have c: "alloc_after_scenario R ord h0 M = Some 0"
    if "2 * r + 12 < unat M" "unat M + 3 < 4294967296"
      "3 * r + 64 < 1048576 \<longrightarrow> 1048528 - 3 * r < m"
  proof -
    have "0 < unat M" using that(1) by simp
    moreover have "\<not> m \<le> 2 * r + 12" using that(1) Mm by simp
    ultimately show ?thesis using plain that by auto
  qed
  show ?thesis
    unfolding p1 p2 p3 p4 hd ks rest two
    using ptrs a b c wrap nz by simp
qed

theorem kmalloc_after_coalescing_witness:
  "0 < unat (16 :: 32 word)
   \<and> 3 * round_up4 (unat (16 :: 32 word)) + 3 * unat header \<le> unat KERNEL_HEAP_SIZE
   \<and> scenario_pointers 16 True boot_heap = Some (0x10000C, 0x100028, 0x100044)
   \<and> alloc_after_scenario 16 True boot_heap 40 = Some 0x10000C
   \<and> alloc_after_scenario 16 False boot_heap 40 = Some 0x10000C
   \<and> alloc_after_scenario 16 True boot_heap 48 = Some 0x100060
   \<and> alloc_after_scenario 16 True boot_heap 0x100000 = Some 0
   \<and> alloc_after_scenario 16 True boot_heap 0xFFFFFFFF = Some 0x10000C
   \<and> alloc_after_scenario 349504 True boot_heap 699024 = Some 0"
proof -
  have r: "round_up4 16 = 16" "round_up4 40 = 40" "round_up4 48 = 48"
    "round_up4 1048576 = 1048576" "round_up4 349504 = 349504" "round_up4 699024 = 699024"
    by (simp_all add: round_up4_def)
  have c: "unat KERNEL_HEAP_SIZE = 1048576" "unat header = 12"
    "heap_start = 0x100000" "header = 12"
    by (simp_all add: KERNEL_HEAP_SIZE_def header_def heap_start_def KERNEL_HEAP_START_def)
  have a: "0 < unat (16 :: 32 word)" "16 = round_up4 (unat (16 :: 32 word))"
    "3 * 16 + 3 * unat header \<le> unat KERNEL_HEAP_SIZE"
    by (simp_all add: r c)
  have rest: "1048480 = unat KERNEL_HEAP_SIZE - 4 * unat header - 3 * 16"
    by (simp add: c)
  have m40: "40 = round_up4 (unat (40 :: 32 word))" by (simp add: r)
  from kmalloc_after_coalescing [OF a m40 rest, of True boot_heap]
    kmalloc_after_coalescing [OF a m40 rest, of False boot_heap]
  have w1: "scenario_pointers 16 True boot_heap = Some (0x10000C, 0x100028, 0x100044)"
    "alloc_after_scenario 16 True boot_heap 40 = Some 0x10000C"
    "alloc_after_scenario 16 False boot_heap 40 = Some 0x10000C"
    by (simp_all add: c)
  have m48: "48 = round_up4 (unat (48 :: 32 word))" by (simp add: r)
  from kmalloc_after_coalescing [OF a m48 rest, of True boot_heap]
  have w2: "alloc_after_scenario 16 True boot_heap 48 = Some 0x100060"
    by (simp add: c)
  have mbig: "1048576 = round_up4 (unat (0x100000 :: 32 word))" by (simp add: r)
  from kmalloc_after_coalescing [OF a mbig rest, of True boot_heap]
  have w3: "alloc_after_scenario 16 True boot_heap 0x100000 = Some 0"
    by (simp add: c)
  have mwrap: "round_up4 (unat (0xFFFFFFFF :: 32 word)) = round_up4 (unat (0xFFFFFFFF :: 32 word))"
    by simp
  from kmalloc_after_coalescing [OF a mwrap rest, of True boot_heap]
  have w4: "alloc_after_scenario 16 True boot_heap 0xFFFFFFFF = Some 0x10000C"
    by (simp add: c)
  have t: "0 < unat (349504 :: 32 word)" "349504 = round_up4 (unat (349504 :: 32 word))"
    "3 * 349504 + 3 * unat header \<le> unat KERNEL_HEAP_SIZE"
    "699024 = round_up4 (unat (699024 :: 32 word))"
    "16 = unat KERNEL_HEAP_SIZE - 4 * unat header - 3 * 349504"
    by (simp_all add: r c)
  from kmalloc_after_coalescing [OF t, of True boot_heap]
  have w5: "alloc_after_scenario 349504 True boot_heap 699024 = Some 0"
    by (simp add: c)
  from w1 w2 w3 w4 w5 show ?thesis by (simp add: r c)
qed

text \<open>
  C4 as stated fails on the kernel's heap: with three blocks of 16 bytes, the merged free
  block has \<open>2 * 16 + 12 = 44\<close> bytes; a request of 48 bytes is larger than that and still
  succeeds, from the free remainder of the 1 MiB heap.
\<close>

theorem kmalloc_after_coalescing_counterexample:
  "2 * round_up4 (unat (16 :: 32 word)) + unat header < unat (48 :: 32 word)
   \<and> alloc_after_scenario 16 True boot_heap 48 = Some 0x100060
   \<and> (0x100060 :: 32 word) \<noteq> 0"
proof -
  have r: "round_up4 16 = 16" "round_up4 48 = 48"
    by (simp_all add: round_up4_def)
  have a16: "align4 16 = w32 16" using align4_w32 [of 16] by (simp add: r)
  have a48: "align4 48 = w32 48" using align4_w32 [of 48] by (simp add: r)
  from kmalloc_after_scenario_w32 [of 16 16 48 48 True boot_heap, OF _ a16 _ _ a48]
  show ?thesis by (simp add: r header_def w32_def)
qed

section \<open>Process manager: lemmas\<close>

lemma process_rows_null: "process_rows 0 k = Some []"
  by (subst process_rows.simps) simp

lemma process_rows_step:
  "proc \<noteq> 0 \<Longrightarrow> process_rows proc k =
     Option.bind (process_rows (next_p (procs k proc)) k)
            (\<lambda>rest. Some (dec_chars (pid (procs k proc)) @ ''    ''
                           @ state_chars (pstate (procs k proc))
                           @ pname (procs k proc) @ [CHR 0x0A] @ rest))"
  by (subst process_rows.simps) simp

lemma process_names_null: "process_names 0 k = Some []"
  by (subst process_names.simps) simp

lemma process_names_step:
  "proc \<noteq> 0 \<Longrightarrow> process_names proc k =
     Option.bind (process_names (next_p (procs k proc)) k)
            (\<lambda>rest. Some (pname (procs k proc) # rest))"
  by (subst process_names.simps) simp

lemma align4_sizes: "align4 sizeof_process_t = w32 56" "align4 PROCESS_STACK_SIZE = w32 4096"
  using align4_w32 [of 56] align4_w32 [of 4096]
  by (simp_all add: round_up4_def sizeof_process_t_def PROCESS_STACK_SIZE_def)

lemma dec_chars_small: "dec_chars 1 = ''1''" "dec_chars 2 = ''2''" "dec_chars 3 = ''3''"
  by code_simp+

lemma copy_name_abc:
  "copy_name 31 ''a'' = ''a''" "copy_name 31 ''b'' = ''b''" "copy_name 31 ''c'' = ''c''"
  by code_simp+

text \<open>
  C8. On the freshly initialised heap and process manager (\<open>next_pid\<close> still 1), creating
  the processes \<open>a\<close>, \<open>b\<close>, \<open>c\<close> in that order returns the ids 1, 2, 3, and the
  listing then names them in the order \<open>c\<close>, \<open>b\<close>, \<open>a\<close>: the table header, then one
  row per process, the most recently created first.
\<close>

theorem process_create_ids_and_listing:
  assumes "next_pid k = 1"
  shows "create_abc e1 e2 e3 (kernel_init k) =
     Some (1, 2, 3, [''c'', ''b'', ''a''],
           ''PID  State    Name'' @ [CHR 0x0A] @ ''---  -------  ----'' @ [CHR 0x0A]
           @ ''3    READY   c'' @ [CHR 0x0A]
           @ ''2    READY   b'' @ [CHR 0x0A]
           @ ''1    READY   a'' @ [CHR 0x0A])"
proof -
  have n0: "sizeof_process_t \<noteq> 0" "PROCESS_STACK_SIZE \<noteq> 0"
    by (simp_all add: sizeof_process_t_def PROCESS_STACK_SIZE_def)
  show ?thesis
    using assms n0
    by (simp add: create_abc_def kernel_init_def process_init_def process_create_def
        process_list_processes_def kmalloc_def align4_sizes memory_init_def
        KERNEL_HEAP_SIZE_w32 memory_init_sized_def heap_start_w32 heap_exec w32_simps
        process_rows_null process_rows_step process_names_null process_names_step
        dec_chars_small copy_name_abc state_chars_def)
qed

theorem process_create_ids_and_listing_witness:
  "next_pid boot_kernel = 1
   \<and> create_abc 0x2000 0x2000 0x2000 (kernel_init boot_kernel) =
     Some (1, 2, 3, [''c'', ''b'', ''a''],
           ''PID  State    Name'' @ [CHR 0x0A] @ ''---  -------  ----'' @ [CHR 0x0A]
           @ ''3    READY   c'' @ [CHR 0x0A]
           @ ''2    READY   b'' @ [CHR 0x0A]
           @ ''1    READY   a'' @ [CHR 0x0A])"
proof -
  have a: "next_pid boot_kernel = 1" by (simp add: boot_kernel_def)
  from process_create_ids_and_listing [OF a, of "0x2000" "0x2000" "0x2000"] a
  show ?thesis by blast
qed

section \<open>Keyboard driver: lemmas\<close>

lemma table_lengths: "length scancode_to_ascii = 58" "length scancode_to_ascii_shift = 58"
  by (simp_all add: scancode_to_ascii_def scancode_to_ascii_shift_def)

lemma release_bit: "((sc :: 8 word) AND 0x80 \<noteq> 0) = bit sc 7"
proof -
  have "(0x80 :: 8 word) = 2 ^ 7" by simp
  then show ?thesis by (simp only: and_exp_eq_0_iff_not_bit) simp
qed

lemma mod256_cases: "x < 512 \<Longrightarrow> x mod 256 = (if x < 256 then x else x - 256)"
  for x :: nat
  by (simp add: le_mod_geq not_less)

lemma ring_count_enqueue:
  "s < 256 \<Longrightarrow> e < 256 \<Longrightarrow> (e + 256 - s) mod 256 < 255 \<Longrightarrow>
   ((e + 1) mod 256 + 256 - s) mod 256 = Suc ((e + 256 - s) mod 256)" for s e :: nat
  by (auto simp add: mod256_cases split: if_splits)

lemma ring_last: "s < 256 \<Longrightarrow> e < 256 \<Longrightarrow> (s + (e + 256 - s) mod 256) mod 256 = e"
  for s e :: nat
  by (auto simp add: mod256_cases split: if_splits)

lemma ring_other:
  "s < 256 \<Longrightarrow> e < 256 \<Longrightarrow> i < (e + 256 - s) mod 256 \<Longrightarrow> (s + i) mod 256 \<noteq> e"
  for s e :: nat
  by (auto simp add: mod256_cases split: if_splits)

lemma ring_empty: "s < 256 \<Longrightarrow> e < 256 \<Longrightarrow> ((e + 256 - s) mod 256 = 0) = (s = e)"
  for s e :: nat
  by (auto simp add: mod256_cases split: if_splits)

lemma ring_count_dequeue:
  "s < 256 \<Longrightarrow> e < 256 \<Longrightarrow> (e + 256 - s) mod 256 = Suc n \<Longrightarrow>
   (e + 256 - (s + 1) mod 256) mod 256 = n" for s e :: nat
  by (auto simp add: mod256_cases split: if_splits)

lemma ring_index: "((s + 1) mod 256 + i) mod 256 = (s + Suc i) mod 256" for s :: nat
  by (simp add: mod_simps)

text \<open>The handler does what the specification's two functions say.\<close>

lemma keyboard_handler_spec:
  "keyboard_handler sc kb =
     (case key_char (shift_pressed kb) sc of
        None \<Rightarrow> kb\<lparr>shift_pressed := key_shift (shift_pressed kb) sc\<rparr>
      | Some c \<Rightarrow> kb\<lparr>key_buffer := (key_buffer kb)(buffer_end kb := c),
                      buffer_end := (buffer_end kb + 1) mod 256\<rparr>)"
  by (auto simp add: keyboard_handler_def key_char_def key_shift_def release_bit table_lengths
      Let_def not_le)

lemma key_char_keeps_shift: "key_char shift sc = Some c \<Longrightarrow> key_shift shift sc = shift"
  by (auto simp add: key_char_def key_shift_def split: if_splits)

lemma length_unread: "length (unread kb) = (buffer_end kb + 256 - buffer_start kb) mod 256"
  by (simp add: unread_def)

lemma unread_shift [simp]: "unread (kb\<lparr>shift_pressed := s\<rparr>) = unread kb"
  by (simp add: unread_def)

lemma unread_enqueue:
  assumes s: "buffer_start kb < 256" and e: "buffer_end kb < 256"
    and room: "length (unread kb) < 255"
  shows "unread (kb\<lparr>key_buffer := (key_buffer kb)(buffer_end kb := c),
                    buffer_end := (buffer_end kb + 1) mod 256\<rparr>) = unread kb @ [c]"
proof -
  let ?s = "buffer_start kb" and ?e = "buffer_end kb"
  let ?n = "(?e + 256 - ?s) mod 256"
  from room have n: "?n < 255" by (simp add: length_unread)
  have cnt: "(Suc ?e mod 256 + 256 - ?s) mod 256 = Suc ?n"
    using ring_count_enqueue [OF s e n] by simp
  have last: "(?s + ?n) mod 256 = ?e"
    using s e by (rule ring_last)
  have other: "(?s + i) mod 256 \<noteq> ?e" if "i < ?n" for i
    using s e that by (rule ring_other)
  have "map (\<lambda>i. ((key_buffer kb)(?e := c)) ((?s + i) mod 256)) [0 ..< ?n]
        = map (\<lambda>i. key_buffer kb ((?s + i) mod 256)) [0 ..< ?n]"
    using other by simp
  then show ?thesis
    by (simp add: unread_def cnt last del: fun_upd_apply) simp
qed

lemma keyboard_getchar_empty:
  assumes "buffer_start kb < 256" and "buffer_end kb < 256"
  shows "(keyboard_getchar kb = None) = (unread kb = [])"
proof -
  have "((buffer_end kb + 256 - buffer_start kb) mod 256 = 0) = (buffer_start kb = buffer_end kb)"
    using assms by (rule ring_empty)
  then show ?thesis
    by (auto simp add: keyboard_getchar_def unread_def)
qed

lemma keyboard_getchar_head:
  assumes s: "buffer_start kb < 256" and e: "buffer_end kb < 256"
    and q: "unread kb = c # cs"
  shows "\<exists>kb'. keyboard_getchar kb = Some (c, kb') \<and> unread kb' = cs
           \<and> buffer_start kb' < 256 \<and> buffer_end kb' = buffer_end kb
           \<and> shift_pressed kb' = shift_pressed kb"
proof -
  let ?s = "buffer_start kb" and ?e = "buffer_end kb"
  let ?n = "(?e + 256 - ?s) mod 256"
  from q have len: "?n = Suc (length cs)"
    using length_unread [of kb] by simp
  then have ne: "?s \<noteq> ?e" using ring_empty [OF s e] by simp
  have up: "[0 ..< ?n] = 0 # map Suc [0 ..< length cs]"
    unfolding len by (simp add: upt_conv_Cons map_Suc_upt del: upt_Suc)
  from q have hd: "key_buffer kb ?s = c"
    and tl: "map (\<lambda>i. key_buffer kb (Suc (?s + i) mod 256)) [0 ..< length cs] = cs"
    using s unfolding unread_def up by (simp_all add: comp_def)
  have cnt: "(?e + 256 - Suc ?s mod 256) mod 256 = length cs"
    using ring_count_dequeue [OF s e len] by simp
  have idx: "(Suc ?s mod 256 + i) mod 256 = Suc (?s + i) mod 256" for i
    using ring_index [of ?s i] by simp
  have "unread (kb\<lparr>buffer_start := (?s + 1) mod 256\<rparr>) = cs"
    by (simp add: unread_def cnt idx tl)
  then show ?thesis
    using ne hd by (simp add: keyboard_getchar_def)
qed

lemma key_a: "key_char False 0x1E = Some CHR ''a''" "key_char True 0x1E = Some CHR ''A''"
  by code_simp+

lemma backlog_ok_length: "backlog_ok es shift q \<Longrightarrow> length q < 256"
  by (induction es shift q rule: backlog_ok.induct) auto

text \<open>
  C6. With the shift flag clear and no unread character, the scancodes shift-press,
  \<open>a\<close>-press, shift-release put the one character \<open>A\<close> into the cell at \<open>buffer_end\<close>,
  advance \<open>buffer_end\<close> by one and leave the flag clear: the unread characters are
  exactly \<open>A\<close>.
\<close>

theorem shift_a_yields_capital_A:
  assumes "\<not> shift_pressed kb" and "buffer_start kb = buffer_end kb" and "buffer_end kb < 256"
  shows "unread (fold keyboard_handler [0x2A, 0x1E, 0xAA] kb) = ''A''
    \<and> fold keyboard_handler [0x2A, 0x1E, 0xAA] kb
        = kb\<lparr>key_buffer := (key_buffer kb)(buffer_end kb := CHR ''A''),
              buffer_end := (buffer_end kb + 1) mod 256\<rparr>"
proof -
  have empty: "unread kb = []"
    using assms by (simp add: unread_def)
  have h1: "keyboard_handler 0x2A k = k\<lparr>shift_pressed := True\<rparr>" for k
    by (simp add: keyboard_handler_def)
  have h2: "keyboard_handler 0x1E k
        = k\<lparr>key_buffer := (key_buffer k)(buffer_end k := CHR ''A''),
             buffer_end := (buffer_end k + 1) mod 256\<rparr>" if "shift_pressed k" for k
    using that by (simp add: keyboard_handler_spec key_a)
  have h3: "keyboard_handler 0xAA k = k\<lparr>shift_pressed := False\<rparr>" for k
    by (simp add: keyboard_handler_def)
  have "fold keyboard_handler [0x2A, 0x1E, 0xAA] kb
        = kb\<lparr>key_buffer := (key_buffer kb)(buffer_end kb := CHR ''A''),
              buffer_end := (buffer_end kb + 1) mod 256\<rparr>"
    using assms(1) by (cases kb) (simp add: h1 h2 h3)
  moreover have "unread (kb\<lparr>key_buffer := (key_buffer kb)(buffer_end kb := CHR ''A''),
              buffer_end := (buffer_end kb + 1) mod 256\<rparr>) = ''A''"
    using unread_enqueue [of kb "CHR ''A''"] assms empty by simp
  ultimately show ?thesis by simp
qed

theorem shift_a_yields_capital_A_witness:
  "\<not> shift_pressed keyboard_boot \<and> buffer_start keyboard_boot = buffer_end keyboard_boot
   \<and> buffer_end keyboard_boot < 256
   \<and> unread (fold keyboard_handler [0x2A, 0x1E, 0xAA] keyboard_boot) = ''A''
   \<and> buffer_end (fold keyboard_handler [0x2A, 0x1E, 0xAA] keyboard_boot) = 1
   \<and> key_buffer (fold keyboard_handler [0x2A, 0x1E, 0xAA] keyboard_boot) 0 = CHR ''A''"
proof -
  have a: "\<not> shift_pressed keyboard_boot" "buffer_start keyboard_boot = buffer_end keyboard_boot"
    "buffer_end keyboard_boot < 256"
    by (simp_all add: keyboard_boot_def)
  from shift_a_yields_capital_A [OF a]
  have u: "unread (fold keyboard_handler [0x2A, 0x1E, 0xAA] keyboard_boot) = ''A''"
    and eq: "fold keyboard_handler [0x2A, 0x1E, 0xAA] keyboard_boot
        = keyboard_boot\<lparr>key_buffer := (key_buffer keyboard_boot)
                                (buffer_end keyboard_boot := CHR ''A''),
              buffer_end := (buffer_end keyboard_boot + 1) mod 256\<rparr>"
    by blast+
  have "buffer_end (fold keyboard_handler [0x2A, 0x1E, 0xAA] keyboard_boot) = 1"
    and "key_buffer (fold keyboard_handler [0x2A, 0x1E, 0xAA] keyboard_boot) 0 = CHR ''A''"
    unfolding eq by (simp_all add: keyboard_boot_def)
  with u a show ?thesis by blast
qed

text \<open>
  C7, amended. As long as fewer than 256 characters are unread at every moment, the ring
  buffer is a first-in first-out queue between the handler and \<open>keyboard_getchar\<close>: every
  interleaving of interrupts and reads returns the characters the queue of the
  specification returns, in the same order, and a read finds the indices equal exactly
  when the queue is empty.
\<close>

theorem ring_buffer_fifo:
  assumes "buffer_start kb < 256" and "buffer_end kb < 256"
    and "backlog_ok es (shift_pressed kb) (unread kb)"
  shows "kb_run es kb = fifo_run es (shift_pressed kb) (unread kb)"
  using assms
proof (induction es arbitrary: kb)
  case Nil
  show ?case by simp
next
  case (Cons ev es)
  show ?case
  proof (cases ev)
    case (Irq sc)
    show ?thesis
    proof (cases "key_char (shift_pressed kb) sc")
      case None
      let ?kb = "kb\<lparr>shift_pressed := key_shift (shift_pressed kb) sc\<rparr>"
      have h: "keyboard_handler sc kb = ?kb"
        by (simp add: keyboard_handler_spec None)
      from Cons.prems Irq None
      have "backlog_ok es (shift_pressed ?kb) (unread ?kb)" by simp
      with Cons.IH [of ?kb] Cons.prems(1,2)
      have "kb_run es ?kb = fifo_run es (shift_pressed ?kb) (unread ?kb)" by simp
      then show ?thesis using Irq None h by simp
    next
      case (Some c)
      let ?kb = "kb\<lparr>key_buffer := (key_buffer kb)(buffer_end kb := c),
                      buffer_end := (buffer_end kb + 1) mod 256\<rparr>"
      have h: "keyboard_handler sc kb = ?kb"
        by (simp add: keyboard_handler_spec Some)
      from Cons.prems Irq Some
      have b: "backlog_ok es (key_shift (shift_pressed kb) sc) (unread kb @ [c])" by simp
      then have "length (unread kb @ [c]) < 256" by (rule backlog_ok_length)
      then have room: "length (unread kb) < 255" by simp
      have u: "unread ?kb = unread kb @ [c]"
        by (rule unread_enqueue [OF Cons.prems(1,2) room])
      have sh: "shift_pressed ?kb = key_shift (shift_pressed kb) sc"
        using key_char_keeps_shift [OF Some] by simp
      from Cons.IH [of ?kb] Cons.prems(1) b u sh
      have "kb_run es ?kb = fifo_run es (shift_pressed ?kb) (unread ?kb)" by simp
      then show ?thesis using Irq Some h u sh by simp
    qed
  next
    case Getchar
    show ?thesis
    proof (cases "unread kb")
      case Nil
      then have "keyboard_getchar kb = None"
        using keyboard_getchar_empty [OF Cons.prems(1,2)] by simp
      then show ?thesis using Getchar Nil by simp
    next
      case (Cons c cs)
      from keyboard_getchar_head [OF Cons.prems(1,2) Cons]
      obtain kb' where g: "keyboard_getchar kb = Some (c, kb')" and u: "unread kb' = cs"
        and i: "buffer_start kb' < 256" "buffer_end kb' = buffer_end kb"
        and sh: "shift_pressed kb' = shift_pressed kb"
        by blast
      from Cons.prems(3) Getchar Cons have "backlog_ok es (shift_pressed kb') (unread kb')"
        by (simp add: u sh)
      with Cons.IH [of kb'] i Cons.prems(2)
      have "kb_run es kb' = fifo_run es (shift_pressed kb') (unread kb')" by simp
      then show ?thesis using Getchar Cons g u sh by simp
    qed
  qed
qed

theorem ring_buffer_fifo_witness:
  "buffer_start keyboard_boot < 256 \<and> buffer_end keyboard_boot < 256
   \<and> backlog_ok [Irq 0x2A, Irq 0x1E, Irq 0xAA, Irq 0x1E, Getchar, Getchar]
        (shift_pressed keyboard_boot) (unread keyboard_boot)
   \<and> kb_run [Irq 0x2A, Irq 0x1E, Irq 0xAA, Irq 0x1E, Getchar, Getchar] keyboard_boot = Some ''Aa''"
proof -
  have a: "buffer_start keyboard_boot < 256" "buffer_end keyboard_boot < 256"
    by (simp_all add: keyboard_boot_def)
  have u: "unread keyboard_boot = []" "shift_pressed keyboard_boot = False"
    by (simp_all add: unread_def keyboard_boot_def)
  have k: "key_char False 0x2A = None" "key_char True 0xAA = None"
    "key_shift False 0x2A = True" "key_shift True 0x1E = True" "key_shift True 0xAA = False"
    "key_shift False 0x1E = False"
    by (simp_all add: key_char_def key_shift_def)
  have b: "backlog_ok [Irq 0x2A, Irq 0x1E, Irq 0xAA, Irq 0x1E, Getchar, Getchar]
        (shift_pressed keyboard_boot) (unread keyboard_boot)"
    by (simp add: u k key_a)
  from ring_buffer_fifo [OF a b] a b show ?thesis
    by (simp add: u k key_a)
qed

lemma kb_run_replicate:
  "kb_run (replicate n (Irq sc) @ es) kb = kb_run es ((keyboard_handler sc ^^ n) kb)"
  by (induction n arbitrary: kb) (simp_all add: funpow_swap1)

lemma handler_a_iterated:
  assumes "\<not> shift_pressed kb" and "buffer_end kb < 256"
  shows "buffer_start ((keyboard_handler 0x1E ^^ n) kb) = buffer_start kb
    \<and> buffer_end ((keyboard_handler 0x1E ^^ n) kb) = (buffer_end kb + n) mod 256
    \<and> \<not> shift_pressed ((keyboard_handler 0x1E ^^ n) kb)"
proof (induction n)
  case 0
  then show ?case using assms by simp
next
  case (Suc n)
  then show ?case
    by (simp add: keyboard_handler_spec key_a mod_simps)
qed

lemma fifo_run_replicate_a:
  "fifo_run (replicate n (Irq 0x1E) @ es) False q = fifo_run es False (q @ replicate n CHR ''a'')"
proof (induction n arbitrary: q)
  case 0
  then show ?case by simp
next
  case (Suc n)
  have "key_shift False 0x1E = False" by (simp add: key_shift_def)
  then show ?case
    using Suc [of "q @ ''a''"] by (simp add: key_a replicate_app_Cons_same)
qed

text \<open>
  C7 as stated fails once 256 characters are unread. After 256 key presses and no read
  the two indices are equal again: \<open>keyboard_getchar\<close> waits, although the queue of the
  specification holds 256 characters. One more key press, and the first read returns
  that newest character; the 256 older ones, not only the oldest, are gone.
\<close>

theorem ring_buffer_overrun_counterexample:
  "kb_run (replicate 256 (Irq 0x1E) @ [Getchar]) keyboard_boot = None
   \<and> fifo_run (replicate 256 (Irq 0x1E) @ [Getchar]) False [] = Some ''a''
   \<and> kb_run (replicate 256 (Irq 0x1E) @ [Irq 0x30, Getchar]) keyboard_boot = Some ''b''
   \<and> kb_run (replicate 256 (Irq 0x1E) @ [Irq 0x30, Getchar, Getchar]) keyboard_boot = None"
proof -
  let ?K = "(keyboard_handler 0x1E ^^ 256) keyboard_boot"
  have "\<not> shift_pressed keyboard_boot" "buffer_end keyboard_boot < 256"
    by (simp_all add: keyboard_boot_def)
  from handler_a_iterated [OF this, of 256]
  have K: "buffer_start ?K = 0" "buffer_end ?K = 0" "\<not> shift_pressed ?K"
    by (simp_all add: keyboard_boot_def)
  have b: "key_char False 0x30 = Some CHR ''b''" by code_simp
  have r: "replicate 256 CHR ''a'' = CHR ''a'' # replicate 255 CHR ''a''"
    using replicate_Suc [of 255 "CHR ''a''"] by simp
  have c1: "kb_run [Getchar] ?K = None"
    using K by (simp add: keyboard_getchar_def)
  have c2: "fifo_run [Getchar] False (replicate 256 CHR ''a'') = Some ''a''"
    unfolding r by simp
  have c3: "kb_run [Irq 0x30, Getchar] ?K = Some ''b''"
    using K by (simp add: keyboard_handler_spec b keyboard_getchar_def)
  have c4: "kb_run [Irq 0x30, Getchar, Getchar] ?K = None"
    using K by (simp add: keyboard_handler_spec b keyboard_getchar_def)
  from c1 c2 c3 c4 show ?thesis
    by (simp only: kb_run_replicate fifo_run_replicate_a append_Nil)
qed

section \<open>VGA text-mode driver: lemmas\<close>

subsection \<open>The loops\<close>

lemma for_loop_fill:
  "for_loop lo hi (\<lambda>i vm. vm(i := v)) vm = (\<lambda>j. if lo \<le> j \<and> j < hi then v else vm j)"
proof (induction lo hi "\<lambda>(i :: int) (vm :: int \<Rightarrow> 'a). vm(i := v)" vm rule: for_loop.induct)
  case (1 i hi vm)
  show ?case
  proof (cases "i < hi")
    case True
    have "for_loop i hi (\<lambda>i vm. vm(i := v)) vm
          = for_loop (i + 1) hi (\<lambda>i vm. vm(i := v)) (vm(i := v))"
      using True by (subst for_loop.simps) simp
    also have "\<dots> = (\<lambda>j. if i + 1 \<le> j \<and> j < hi then v else (vm(i := v)) j)"
      using True by (rule "1")
    also have "\<dots> = (\<lambda>j. if i \<le> j \<and> j < hi then v else vm j)"
      using True by (auto simp add: fun_eq_iff)
    finally show ?thesis .
  next
    case False
    then show ?thesis by (subst for_loop.simps) (auto simp add: fun_eq_iff)
  qed
qed

lemma for_loop_copy:
  assumes "0 < d"
  shows "for_loop lo hi (\<lambda>i vm. vm(i := vm (i + d))) vm
         = (\<lambda>j. if lo \<le> j \<and> j < hi then vm (j + d) else vm j)"
proof (induction lo hi "\<lambda>(i :: int) (vm :: int \<Rightarrow> 'a). vm(i := vm (i + d))" vm
       rule: for_loop.induct)
  case (1 i hi vm)
  show ?case
  proof (cases "i < hi")
    case True
    let ?vm = "vm(i := vm (i + d))"
    have "for_loop i hi (\<lambda>i vm. vm(i := vm (i + d))) vm
          = for_loop (i + 1) hi (\<lambda>i vm. vm(i := vm (i + d))) ?vm"
      using True by (subst for_loop.simps) simp
    also have "\<dots> = (\<lambda>j. if i + 1 \<le> j \<and> j < hi then ?vm (j + d) else ?vm j)"
      using True by (rule "1")
    also have "\<dots> = (\<lambda>j. if i \<le> j \<and> j < hi then vm (j + d) else vm j)"
      using True assms by (auto simp add: fun_eq_iff)
    finally show ?thesis .
  next
    case False
    then show ?thesis by (subst for_loop.simps) (auto simp add: fun_eq_iff)
  qed
qed

lemma scroll_up_eq:
  "scroll_up s =
     s\<lparr>video_memory :=
          (\<lambda>j. if 0 \<le> j \<and> j < 1920 then video_memory s (j + 80)
                else if 1920 \<le> j \<and> j < 2000 then vga_cell (current_color s) CHR '' ''
                else video_memory s j),
       cursor_row := 24, cursor_col := 0\<rparr>"
proof -
  have "for_loop 1920 2000 (\<lambda>i vm. vm(i := vga_cell (current_color s) CHR '' ''))
          (for_loop 0 1920 (\<lambda>i vm. vm(i := vm (i + 80))) (video_memory s))
        = (\<lambda>j. if 0 \<le> j \<and> j < 1920 then video_memory s (j + 80)
                else if 1920 \<le> j \<and> j < 2000 then vga_cell (current_color s) CHR '' ''
                else video_memory s j)"
    by (simp add: for_loop_fill for_loop_copy fun_eq_iff)
  then show ?thesis
    by (simp add: scroll_up_def MAX_ROWS_def MAX_COLS_def)
qed

lemma screen_clear_eq:
  "screen_clear s =
     s\<lparr>video_memory :=
          (\<lambda>j. if 0 \<le> j \<and> j < 2000 then vga_cell (current_color s) CHR '' ''
                else video_memory s j),
       cursor_row := 0, cursor_col := 0, hw_cursor := 0\<rparr>"
  by (simp add: screen_clear_def for_loop_fill update_cursor_def get_offset_def
      MAX_ROWS_def MAX_COLS_def)

subsection \<open>The cursor invariant\<close>

lemma tab_stop_nonneg: "0 \<le> col \<Longrightarrow> 0 \<le> (col + 8) AND NOT 7" for col :: int
  by simp

lemma cursor_ok_putchar: "cursor_ok s \<Longrightarrow> cursor_ok (screen_putchar c s)"
  using tab_stop_nonneg [of "cursor_col s"]
  by (auto simp add: cursor_ok_def screen_putchar_def putchar_switch_def scroll_up_eq
      update_cursor_def Let_def MAX_ROWS_def MAX_COLS_def)

lemma cursor_ok_write: "cursor_ok s \<Longrightarrow> cursor_ok (screen_write cs s)"
  by (induction cs arbitrary: s) (simp_all add: cursor_ok_putchar)

lemma cursor_ok_set_cursor: "cursor_ok s \<Longrightarrow> cursor_ok (screen_set_cursor row col s)"
  by (auto simp add: cursor_ok_def screen_set_cursor_def update_cursor_def Let_def
      MAX_ROWS_def MAX_COLS_def)

lemma cursor_ok_do: "cursor_ok s \<Longrightarrow> cursor_ok (screen_do call s)"
  by (cases call)
    (simp_all add: cursor_ok_putchar cursor_ok_write cursor_ok_set_cursor screen_backspace_def)

lemma cursor_ok_run: "cursor_ok s \<Longrightarrow> cursor_ok (screen_run calls s)"
  unfolding screen_run_def by (induction calls arbitrary: s) (simp_all add: cursor_ok_do)

lemma cursor_ok_clear: "cursor_ok (screen_clear s)"
  by (simp add: screen_clear_eq cursor_ok_def)

text \<open>
  C9. After \<open>screen_clear\<close>, every sequence of calls of \<open>screen_putchar\<close>, \<open>screen_write\<close>,
  \<open>screen_backspace\<close> and \<open>screen_set_cursor\<close> leaves the cursor row between 0 and 24 and
  the cursor column between 0 and 79, so the offset \<open>row * 80 + col\<close> that the next
  \<open>screen_putchar\<close> writes to lies inside the 2000 cells of the grid.
\<close>

theorem cursor_stays_in_grid:
  "0 \<le> cursor_row (screen_run calls (screen_clear s))
   \<and> cursor_row (screen_run calls (screen_clear s)) \<le> 24
   \<and> 0 \<le> cursor_col (screen_run calls (screen_clear s))
   \<and> cursor_col (screen_run calls (screen_clear s)) \<le> 79
   \<and> 0 \<le> get_offset (cursor_row (screen_run calls (screen_clear s)))
                     (cursor_col (screen_run calls (screen_clear s)))
   \<and> get_offset (cursor_row (screen_run calls (screen_clear s)))
                 (cursor_col (screen_run calls (screen_clear s))) < MAX_ROWS * MAX_COLS"
proof -
  have "cursor_ok (screen_run calls (screen_clear s))"
    by (rule cursor_ok_run [OF cursor_ok_clear])
  then show ?thesis
    by (simp add: cursor_ok_def get_offset_def MAX_ROWS_def MAX_COLS_def)
qed

subsection \<open>Writing characters and lines\<close>

lemma putchar_plain_inline:
  assumes "plain c" and "0 \<le> cursor_col s" and "cursor_col s < 79"
    and "0 \<le> cursor_row s" and "cursor_row s \<le> 24"
  shows "cursor_row (screen_putchar c s) = cursor_row s"
    and "cursor_col (screen_putchar c s) = cursor_col s + 1"
    and "current_color (screen_putchar c s) = current_color s"
    and "video_memory (screen_putchar c s) =
          (video_memory s)(get_offset (cursor_row s) (cursor_col s) := vga_cell (current_color s) c)"
  using assms
  by (simp_all add: plain_def screen_putchar_def putchar_switch_def update_cursor_def Let_def
      MAX_ROWS_def MAX_COLS_def)

lemma putchar_plain_wrap:
  assumes "plain c" and "cursor_col s = 79" and "0 \<le> cursor_row s" and "cursor_row s < 24"
  shows "cursor_row (screen_putchar c s) = cursor_row s + 1"
    and "cursor_col (screen_putchar c s) = 0"
    and "current_color (screen_putchar c s) = current_color s"
    and "video_memory (screen_putchar c s) =
          (video_memory s)(get_offset (cursor_row s) (cursor_col s) := vga_cell (current_color s) c)"
  using assms
  by (simp_all add: plain_def screen_putchar_def putchar_switch_def update_cursor_def Let_def
      MAX_ROWS_def MAX_COLS_def)

lemma putchar_newline:
  assumes "cursor_row s < 24"
  shows "cursor_row (screen_putchar (CHR 0x0A) s) = cursor_row s + 1"
    and "cursor_col (screen_putchar (CHR 0x0A) s) = 0"
    and "current_color (screen_putchar (CHR 0x0A) s) = current_color s"
    and "video_memory (screen_putchar (CHR 0x0A) s) = video_memory s"
  using assms
  by (simp_all add: screen_putchar_def putchar_switch_def update_cursor_def Let_def
      MAX_ROWS_def MAX_COLS_def)

lemma putchar_newline_scroll:
  assumes "cursor_row s = 24"
  shows "cursor_row (screen_putchar (CHR 0x0A) s) = 24"
    and "cursor_col (screen_putchar (CHR 0x0A) s) = 0"
    and "current_color (screen_putchar (CHR 0x0A) s) = current_color s"
    and "video_memory (screen_putchar (CHR 0x0A) s) =
          (\<lambda>j. if 0 \<le> j \<and> j < 1920 then video_memory s (j + 80)
                else if 1920 \<le> j \<and> j < 2000 then vga_cell (current_color s) CHR '' ''
                else video_memory s j)"
  using assms
  by (auto simp add: screen_putchar_def putchar_switch_def update_cursor_def Let_def
      scroll_up_eq MAX_ROWS_def MAX_COLS_def fun_eq_iff)

lemma write_plain:
  assumes "\<forall>c \<in> set cs. plain c" and "0 \<le> cursor_col s"
    and "cursor_col s + int (length cs) \<le> 79"
    and "0 \<le> cursor_row s" and "cursor_row s \<le> 24"
  shows "cursor_row (fold screen_putchar cs s) = cursor_row s
    \<and> cursor_col (fold screen_putchar cs s) = cursor_col s + int (length cs)
    \<and> current_color (fold screen_putchar cs s) = current_color s
    \<and> video_memory (fold screen_putchar cs s) =
        (\<lambda>j. if get_offset (cursor_row s) (cursor_col s) \<le> j
                  \<and> j < get_offset (cursor_row s) (cursor_col s) + int (length cs)
               then vga_cell (current_color s)
                      (cs ! nat (j - get_offset (cursor_row s) (cursor_col s)))
               else video_memory s j)"
  using assms
proof (induction cs arbitrary: s)
  case Nil
  then show ?case by (auto simp add: fun_eq_iff)
next
  case (Cons c cs)
  let ?s = "screen_putchar c s"
  let ?o = "get_offset (cursor_row s) (cursor_col s)"
  have pc: "plain c" and col: "cursor_col s < 79"
    using Cons.prems by auto
  note step = putchar_plain_inline [OF pc Cons.prems(2) col Cons.prems(4,5)]
  have o: "get_offset (cursor_row ?s) (cursor_col ?s) = ?o + 1"
    by (simp add: step get_offset_def)
  have ih: "cursor_row (fold screen_putchar cs ?s) = cursor_row ?s
    \<and> cursor_col (fold screen_putchar cs ?s) = cursor_col ?s + int (length cs)
    \<and> current_color (fold screen_putchar cs ?s) = current_color ?s
    \<and> video_memory (fold screen_putchar cs ?s) =
        (\<lambda>j. if get_offset (cursor_row ?s) (cursor_col ?s) \<le> j
                  \<and> j < get_offset (cursor_row ?s) (cursor_col ?s) + int (length cs)
               then vga_cell (current_color ?s)
                      (cs ! nat (j - get_offset (cursor_row ?s) (cursor_col ?s)))
               else video_memory ?s j)"
    using Cons.prems by (intro Cons.IH) (simp_all add: step)
  note ih1 = ih [unfolded o]
  note ih2 = ih1 [unfolded step]
  from ih2 have vm: "video_memory (fold screen_putchar cs ?s) =
        (\<lambda>j. if ?o + 1 \<le> j \<and> j < ?o + 1 + int (length cs)
               then vga_cell (current_color s) (cs ! nat (j - (?o + 1)))
               else ((video_memory s)(?o := vga_cell (current_color s) c)) j)"
    by blast
  have nth: "(c # cs) ! nat (j - ?o) = cs ! nat (j - (?o + 1))" if "?o + 1 \<le> j" for j
  proof -
    from that have "nat (j - ?o) = Suc (nat (j - (?o + 1)))" by simp
    then show ?thesis by simp
  qed
  have "video_memory (fold screen_putchar cs ?s) =
        (\<lambda>j. if ?o \<le> j \<and> j < ?o + int (length (c # cs))
               then vga_cell (current_color s) ((c # cs) ! nat (j - ?o))
               else video_memory s j)"
  proof
    fix j
    show "video_memory (fold screen_putchar cs ?s) j =
        (if ?o \<le> j \<and> j < ?o + int (length (c # cs))
               then vga_cell (current_color s) ((c # cs) ! nat (j - ?o))
               else video_memory s j)"
    proof (cases "?o + 1 \<le> j")
      case True
      show ?thesis unfolding vm nth [OF True] using True by simp
    next
      case False
      show ?thesis unfolding vm using False by (cases "j = ?o") simp_all
    qed
  qed
  moreover have "cursor_row (fold screen_putchar cs ?s) = cursor_row s"
    "cursor_col (fold screen_putchar cs ?s) = cursor_col s + int (length (c # cs))"
    "current_color (fold screen_putchar cs ?s) = current_color s"
    using ih2 by simp_all
  ultimately show ?case by simp
qed

lemma row_of_offset:
  fixes c n k r :: int
  assumes "0 \<le> c" "c < 80" "n < 80" "k * 80 \<le> r * 80 + c" "r * 80 + c < k * 80 + n"
  shows "r = k \<and> c < n"
proof -
  have "\<not> r < k"
  proof
    assume "r < k"
    then have "r + 1 \<le> k" by simp
    with assms show False by linarith
  qed
  moreover have "\<not> k < r"
  proof
    assume "k < r"
    then have "k + 1 \<le> r" by simp
    with assms show False by linarith
  qed
  ultimately have "r = k" by simp
  with assms show ?thesis by simp
qed

lemma write_line_cells:
  assumes "\<forall>c \<in> set line. plain c" and "length line < 80"
    and "cursor_col s = 0" and "0 \<le> cursor_row s" and "cursor_row s \<le> 24"
  shows "cursor_row (fold screen_putchar line s) = cursor_row s"
    and "cursor_col (fold screen_putchar line s) = int (length line)"
    and "current_color (fold screen_putchar line s) = current_color s"
    and "\<And>r c. 0 \<le> c \<Longrightarrow> c < 80 \<Longrightarrow>
           cell_at (fold screen_putchar line s) r c =
             (if r = cursor_row s \<and> c < int (length line)
              then vga_cell (current_color s) (line ! nat c) else cell_at s r c)"
proof -
  have "cursor_col s + int (length line) \<le> 79" "0 \<le> cursor_col s"
    using assms(2,3) by simp_all
  note w = write_plain [OF assms(1) this(2) this(1) assms(4,5)]
  from w show "cursor_row (fold screen_putchar line s) = cursor_row s"
    and "current_color (fold screen_putchar line s) = current_color s"
    by simp_all
  from w assms(3) show "cursor_col (fold screen_putchar line s) = int (length line)"
    by simp
  fix r c :: int
  assume c: "0 \<le> c" "c < 80"
  from w have vm: "video_memory (fold screen_putchar line s) =
        (\<lambda>j. if get_offset (cursor_row s) (cursor_col s) \<le> j
                  \<and> j < get_offset (cursor_row s) (cursor_col s) + int (length line)
               then vga_cell (current_color s)
                      (line ! nat (j - get_offset (cursor_row s) (cursor_col s)))
               else video_memory s j)"
    by blast
  have range: "(cursor_row s * 80 \<le> r * 80 + c \<and> r * 80 + c < cursor_row s * 80 + int (length line))
                = (r = cursor_row s \<and> c < int (length line))"
    using c assms(2) row_of_offset [of c "int (length line)" "cursor_row s" r] by auto
  show "cell_at (fold screen_putchar line s) r c =
             (if r = cursor_row s \<and> c < int (length line)
              then vga_cell (current_color s) (line ! nat c) else cell_at s r c)"
    unfolding cell_at_def vm
    using range by (auto simp add: get_offset_def MAX_COLS_def assms(3))
qed

lemma lines_shown_clear: "lines_shown (current_color s) ls 0 (screen_clear s)"
  by (auto simp add: lines_shown_def screen_clear_eq cell_at_def get_offset_def MAX_COLS_def)

lemma lines_shown_step:
  assumes shown: "lines_shown color ls k s" and k: "k < 24"
    and pl: "\<forall>c \<in> set (ls ! k). plain c" and len: "length (ls ! k) < 80"
  shows "lines_shown color ls (Suc k) (fold screen_putchar (ls ! k @ [CHR 0x0A]) s)"
proof -
  let ?line = "ls ! k"
  let ?s1 = "fold screen_putchar ?line s"
  let ?s2 = "screen_putchar (CHR 0x0A) ?s1"
  from shown have s: "cursor_row s = int k" "cursor_col s = 0" "current_color s = color"
    and cells: "\<And>r c. 0 \<le> r \<Longrightarrow> r < 25 \<Longrightarrow> 0 \<le> c \<Longrightarrow> c < 80 \<Longrightarrow>
         cell_at s r c = (if r < int k then line_cell color (ls ! nat r) c
                          else vga_cell color CHR '' '')"
    by (simp_all add: lines_shown_def)
  have row: "0 \<le> cursor_row s" "cursor_row s \<le> 24" using s k by simp_all
  note w = write_line_cells [OF pl len s(2) row]
  have r1: "cursor_row ?s1 < 24" using w(1) s k by simp
  note n = putchar_newline [OF r1]
  have "cell_at ?s2 r c = (if r < int (Suc k) then line_cell color (ls ! nat r) c
                          else vga_cell color CHR '' '')"
    if "0 \<le> r" "r < 25" "0 \<le> c" "c < 80" for r c
  proof -
    have "cell_at ?s2 r c = cell_at ?s1 r c"
      by (simp add: cell_at_def n)
    also have "\<dots> = (if r = int k \<and> c < int (length ?line)
              then vga_cell color (?line ! nat c) else cell_at s r c)"
      using w(4) [OF that(3,4)] s by simp
    also have "\<dots> = (if r < int (Suc k) then line_cell color (ls ! nat r) c
                          else vga_cell color CHR '' '')"
    proof (cases "r = int k")
      case True
      then have "nat r = k" by simp
      then show ?thesis using True cells [OF that] by (simp add: line_cell_def)
    next
      case False
      then show ?thesis using cells [OF that] by auto
    qed
    finally show ?thesis .
  qed
  moreover have "cursor_row ?s2 = int (Suc k)" "cursor_col ?s2 = 0" "current_color ?s2 = color"
    using n w s by simp_all
  ultimately show ?thesis
    by (simp add: lines_shown_def)
qed

lemma write_lines_snoc:
  "write_lines (ls @ [l]) s = fold screen_putchar (l @ [CHR 0x0A]) (write_lines ls s)"
  by (simp add: write_lines_def)

lemma lines_shown_take:
  assumes "k \<le> 24" and "k \<le> length ls"
    and "\<forall>l \<in> set ls. length l < 80 \<and> (\<forall>c \<in> set l. plain c)"
  shows "lines_shown (current_color s) ls k (write_lines (take k ls) (screen_clear s))"
  using assms(1,2)
proof (induction k)
  case 0
  show ?case using lines_shown_clear by (simp add: write_lines_def)
next
  case (Suc k)
  then have k: "k < 24" "k < length ls" by simp_all
  then have "ls ! k \<in> set ls" by simp
  with assms(3) have line: "\<forall>c \<in> set (ls ! k). plain c" "length (ls ! k) < 80" by auto
  have shown: "lines_shown (current_color s) ls k (write_lines (take k ls) (screen_clear s))"
    using Suc by simp
  show ?case
    unfolding take_Suc_conv_app_nth [OF k(2)] write_lines_snoc
    by (rule lines_shown_step [OF shown k(1) line])
qed

lemma lines_shown_scroll:
  assumes shown: "lines_shown color ls 24 s"
    and pl: "\<forall>c \<in> set (ls ! 24). plain c" and len: "length (ls ! 24) < 80"
  shows "cursor_row (fold screen_putchar (ls ! 24 @ [CHR 0x0A]) s) = 24"
    and "cursor_col (fold screen_putchar (ls ! 24 @ [CHR 0x0A]) s) = 0"
    and "\<And>r c. 0 \<le> r \<Longrightarrow> r < 24 \<Longrightarrow> 0 \<le> c \<Longrightarrow> c < 80 \<Longrightarrow>
           cell_at (fold screen_putchar (ls ! 24 @ [CHR 0x0A]) s) r c
             = line_cell color (ls ! nat (r + 1)) c"
    and "\<And>c. 0 \<le> c \<Longrightarrow> c < 80 \<Longrightarrow>
           cell_at (fold screen_putchar (ls ! 24 @ [CHR 0x0A]) s) 24 c = vga_cell color CHR '' ''"
proof -
  let ?line = "ls ! 24"
  let ?s1 = "fold screen_putchar ?line s"
  let ?s2 = "screen_putchar (CHR 0x0A) ?s1"
  from shown have s: "cursor_row s = 24" "cursor_col s = 0" "current_color s = color"
    and cells: "\<And>r c. 0 \<le> r \<Longrightarrow> r < 25 \<Longrightarrow> 0 \<le> c \<Longrightarrow> c < 80 \<Longrightarrow>
         cell_at s r c = (if r < 24 then line_cell color (ls ! nat r) c
                          else vga_cell color CHR '' '')"
    by (simp_all add: lines_shown_def)
  have row: "0 \<le> cursor_row s" "cursor_row s \<le> 24" using s by simp_all
  note w = write_line_cells [OF pl len s(2) row]
  have r1: "cursor_row ?s1 = 24" using w(1) s by simp
  note n = putchar_newline_scroll [OF r1]
  have f: "fold screen_putchar (?line @ [CHR 0x0A]) s = ?s2" by simp
  show "cursor_row (fold screen_putchar (?line @ [CHR 0x0A]) s) = 24"
    and "cursor_col (fold screen_putchar (?line @ [CHR 0x0A]) s) = 0"
    unfolding f using n by simp_all
  show "cell_at (fold screen_putchar (?line @ [CHR 0x0A]) s) r c
             = line_cell color (ls ! nat (r + 1)) c"
    if "0 \<le> r" "r < 24" "0 \<le> c" "c < 80" for r c
  proof -
    have "r * 80 + c < 1920" "0 \<le> r * 80 + c" using that by simp_all
    then have "cell_at ?s2 r c = cell_at ?s1 (r + 1) c"
      by (simp add: cell_at_def n get_offset_def MAX_COLS_def algebra_simps)
    also have "\<dots> = (if r + 1 = 24 \<and> c < int (length ?line)
              then vga_cell color (?line ! nat c) else cell_at s (r + 1) c)"
      using w(4) [OF that(3,4), of "r + 1"] s by simp
    also have "\<dots> = line_cell color (ls ! nat (r + 1)) c"
    proof (cases "r + 1 = 24")
      case True
      then have "nat (r + 1) = 24" by simp
      then show ?thesis
        using True cells [of 24 c] that by (simp add: line_cell_def)
    next
      case False
      then show ?thesis using cells [of "r + 1" c] that by simp
    qed
    finally show ?thesis unfolding f .
  qed
  show "cell_at (fold screen_putchar (?line @ [CHR 0x0A]) s) 24 c = vga_cell color CHR '' ''"
    if "0 \<le> c" "c < 80" for c
    unfolding f using that w(3) s
    by (simp add: cell_at_def n get_offset_def MAX_COLS_def)
qed

lemma write_81_chars:
  assumes len: "length cs = 81" and pl: "\<forall>c \<in> set cs. plain c"
  shows "cursor_row (fold screen_putchar cs (screen_clear s)) = 1"
    and "cursor_col (fold screen_putchar cs (screen_clear s)) = 1"
    and "\<And>i. i < 81 \<Longrightarrow>
           video_memory (fold screen_putchar cs (screen_clear s)) (int i)
             = vga_cell (current_color s) (cs ! i)"
proof -
  define xs where "xs = take 79 cs"
  let ?s0 = "screen_clear s"
  let ?s1 = "fold screen_putchar xs ?s0"
  let ?s2 = "screen_putchar (cs ! 79) ?s1"
  let ?s3 = "screen_putchar (cs ! 80) ?s2"
  have split: "cs = xs @ [cs ! 79, cs ! 80]"
  proof -
    have "take (Suc 79) cs = take 79 cs @ [cs ! 79]"
      using len by (intro take_Suc_conv_app_nth) simp
    moreover have "take (Suc 80) cs = take 80 cs @ [cs ! 80]"
      using len by (intro take_Suc_conv_app_nth) simp
    ultimately have "take 81 cs = take 79 cs @ [cs ! 79, cs ! 80]" by simp
    then show ?thesis using len by (simp add: xs_def)
  qed
  have f: "fold screen_putchar cs ?s0 = ?s3"
    by (subst split) simp
  have s0: "cursor_row ?s0 = 0" "cursor_col ?s0 = 0" "current_color ?s0 = current_color s"
    by (simp_all add: screen_clear_eq)
  have px: "\<forall>c \<in> set xs. plain c"
    using pl by (auto simp add: xs_def dest: in_set_takeD)
  have p: "plain (cs ! 79)" "plain (cs ! 80)" using pl len by simp_all
  have lx: "length xs = 79" using len by (simp add: xs_def)
  have nx: "xs ! i = cs ! i" if "i < 79" for i using that by (simp add: xs_def)
  have w: "cursor_row ?s1 = cursor_row ?s0
    \<and> cursor_col ?s1 = cursor_col ?s0 + int (length xs)
    \<and> current_color ?s1 = current_color ?s0
    \<and> video_memory ?s1 =
        (\<lambda>j. if get_offset (cursor_row ?s0) (cursor_col ?s0) \<le> j
                  \<and> j < get_offset (cursor_row ?s0) (cursor_col ?s0) + int (length xs)
               then vga_cell (current_color ?s0)
                      (xs ! nat (j - get_offset (cursor_row ?s0) (cursor_col ?s0)))
               else video_memory ?s0 j)"
    by (rule write_plain [OF px]) (simp_all add: s0 lx)
  have o0: "get_offset (cursor_row ?s0) (cursor_col ?s0) = 0"
    by (simp add: s0 get_offset_def)
  from w have s1: "cursor_row ?s1 = 0" "cursor_col ?s1 = 79" "current_color ?s1 = current_color s"
    by (simp_all add: s0 lx)
  from w have vm1: "video_memory ?s1 j =
        (if 0 \<le> j \<and> j < 79 then vga_cell (current_color s) (xs ! nat j)
         else video_memory ?s0 j)" for j
    by (simp add: s0 lx get_offset_def)
  have s2: "cursor_row ?s2 = 1" "cursor_col ?s2 = 0" "current_color ?s2 = current_color s"
    and vm2: "video_memory ?s2 = (video_memory ?s1)(79 := vga_cell (current_color s) (cs ! 79))"
    using putchar_plain_wrap [of "cs ! 79" ?s1] p(1)
    by (simp_all add: s1 get_offset_def MAX_COLS_def)
  have s3: "cursor_row ?s3 = 1" "cursor_col ?s3 = 1"
    and vm3: "video_memory ?s3 = (video_memory ?s2)(80 := vga_cell (current_color s) (cs ! 80))"
    using putchar_plain_inline [of "cs ! 80" ?s2] p(2)
    by (simp_all add: s2 get_offset_def MAX_COLS_def)
  show "cursor_row (fold screen_putchar cs ?s0) = 1" "cursor_col (fold screen_putchar cs ?s0) = 1"
    unfolding f using s3 by simp_all
  fix i :: nat
  assume i: "i < 81"
  show "video_memory (fold screen_putchar cs ?s0) (int i) = vga_cell (current_color s) (cs ! i)"
  proof -
    consider "i < 79" | "i = 79" | "i = 80" using i by linarith
    then show ?thesis
    proof cases
      case 1
      then show ?thesis unfolding f vm3 vm2 by (simp add: vm1 nx)
    next
      case 2
      then show ?thesis unfolding f vm3 vm2 by simp
    next
      case 3
      then show ?thesis unfolding f vm3 vm2 by simp
    qed
  qed
qed

text \<open>
  C5. From a cleared screen, 81 calls of \<open>screen_putchar\<close> with characters other than
  newline, carriage return, backspace and tab leave the cursor at row 1, column 1: the
  first 80 characters fill row 0 and the 81st stands at the start of row 1. And 25 lines
  of fewer than 80 such characters, each followed by a newline, end in one scroll: the
  cursor is at the start of row 24, that row is blank, and rows 0 to 23 show the second to
  the 25th line, so the first line is no longer on the screen.
\<close>

theorem screen_wrap_and_scroll:
  assumes "length cs = 81" and "\<forall>c \<in> set cs. plain c"
    and "length ls = 25" and "\<forall>l \<in> set ls. length l < 80 \<and> (\<forall>c \<in> set l. plain c)"
  shows "cursor_row (fold screen_putchar cs (screen_clear s)) = 1
    \<and> cursor_col (fold screen_putchar cs (screen_clear s)) = 1
    \<and> (\<forall>c. 0 \<le> c \<and> c < 80 \<longrightarrow>
          cell_at (fold screen_putchar cs (screen_clear s)) 0 c
            = vga_cell (current_color s) (cs ! nat c))
    \<and> cell_at (fold screen_putchar cs (screen_clear s)) 1 0 = vga_cell (current_color s) (cs ! 80)
    \<and> cursor_row (write_lines ls (screen_clear s)) = 24
    \<and> cursor_col (write_lines ls (screen_clear s)) = 0
    \<and> (\<forall>r c. 0 \<le> r \<and> r < 24 \<and> 0 \<le> c \<and> c < 80 \<longrightarrow>
          cell_at (write_lines ls (screen_clear s)) r c
            = line_cell (current_color s) (ls ! nat (r + 1)) c)
    \<and> (\<forall>c. 0 \<le> c \<and> c < 80 \<longrightarrow>
          cell_at (write_lines ls (screen_clear s)) 24 c = vga_cell (current_color s) CHR '' '')"
proof -
  note a = write_81_chars [OF assms(1,2), where s = s]
  have row0: "cell_at (fold screen_putchar cs (screen_clear s)) 0 c
            = vga_cell (current_color s) (cs ! nat c)" if "0 \<le> c" "c < 80" for c
    using a(3) [of "nat c"] that by (simp add: cell_at_def get_offset_def)
  have row1: "cell_at (fold screen_putchar cs (screen_clear s)) 1 0
            = vga_cell (current_color s) (cs ! 80)"
    using a(3) [of 80] by (simp add: cell_at_def get_offset_def MAX_COLS_def)
  have shown: "lines_shown (current_color s) ls 24 (write_lines (take 24 ls) (screen_clear s))"
    using assms(3,4) by (intro lines_shown_take) simp_all
  have "ls ! 24 \<in> set ls" using assms(3) by simp
  with assms(4) have last: "\<forall>c \<in> set (ls ! 24). plain c" "length (ls ! 24) < 80" by auto
  have "ls = take 24 ls @ [ls ! 24]"
    using assms(3) take_Suc_conv_app_nth [of 24 ls] by simp
  then have w: "write_lines ls (screen_clear s)
      = fold screen_putchar (ls ! 24 @ [CHR 0x0A]) (write_lines (take 24 ls) (screen_clear s))"
    using write_lines_snoc [of "take 24 ls" "ls ! 24" "screen_clear s"] by simp
  note b = lines_shown_scroll [OF shown last, folded w]
  from a(1,2) row0 row1 b show ?thesis by simp
qed

theorem screen_wrap_and_scroll_witness:
  "cursor_row (fold screen_putchar (replicate 81 CHR ''x'') (screen_clear screen_boot)) = 1
   \<and> cursor_col (fold screen_putchar (replicate 81 CHR ''x'') (screen_clear screen_boot)) = 1
   \<and> cell_at (fold screen_putchar (replicate 81 CHR ''x'') (screen_clear screen_boot)) 1 0
       = vga_cell 0x0F CHR ''x''
   \<and> cursor_row (write_lines (''top'' # replicate 24 ''row'') (screen_clear screen_boot)) = 24
   \<and> cursor_col (write_lines (''top'' # replicate 24 ''row'') (screen_clear screen_boot)) = 0
   \<and> cell_at (write_lines (''top'' # replicate 24 ''row'') (screen_clear screen_boot)) 0 0
       = vga_cell 0x0F CHR ''r''
   \<and> cell_at (write_lines (''top'' # replicate 24 ''row'') (screen_clear screen_boot)) 24 0
       = vga_cell 0x0F CHR '' ''"
proof -
  have h: "length (replicate 81 CHR ''x'') = 81" "\<forall>c \<in> set (replicate 81 CHR ''x''). plain c"
    "length (''top'' # replicate 24 ''row'') = 25"
    "\<forall>l \<in> set (''top'' # replicate 24 ''row''). length l < 80 \<and> (\<forall>c \<in> set l. plain c)"
    by (simp_all add: plain_def)
  have c: "current_color screen_boot = 0x0F" by (simp add: screen_boot_def)
  have n: "replicate 81 CHR ''x'' ! 80 = CHR ''x''"
    "line_cell 0x0F ((''top'' # replicate 24 ''row'') ! nat (0 + 1)) 0 = vga_cell 0x0F CHR ''r''"
    by (simp_all add: line_cell_def)
  from screen_wrap_and_scroll [OF h, where s = screen_boot] show ?thesis
    unfolding c using n by simp
qed

section \<open>Boot sectors: lemmas\<close>

lemma run_numeral:
  "run fw prog (numeral k) s = run fw prog (pred_numeral k) (step fw prog s)"
  by (simp add: numeral_eq_Suc)

lemma run_add: "run fw prog (m + n) s = run fw prog n (run fw prog m s)"
  by (induction m arbitrary: s) simp_all






lemma c_string_msgs:
  "c_string msg_loading_b = ''Loading Stage 2...'' @ [CHR 0x0D, CHR 0x0A]"
  "c_string msg_disk_error_b = ''Disk read error!'' @ [CHR 0x0D, CHR 0x0A]"
  "c_string msg_boot_a = ''AnnotatOS Bootloader'' @ [CHR 0x0D, CHR 0x0A]"
  "c_string msg_loading_a = ''Loading kernel...'' @ [CHR 0x0D, CHR 0x0A]"
  "c_string msg_error_a = ''DISK ERROR - System halted safely'' @ [CHR 0x0D, CHR 0x0A]"
  by (simp_all add: msg_loading_b_def msg_disk_error_b_def msg_boot_a_def msg_loading_a_def
      msg_error_a_def)

subsection \<open>Profile B up to and after the disk read\<close>

lemma segment_zero: "(word_cat (0 :: 8 word) (0 :: 8 word) :: 16 word) = 0"
  by (simp add: word_cat_eq)

lemma boot_b_request:
  assumes "\<not> df s0" and "store_clear (seg s0 DS)"
  shows "pc (run fw boot_b 19 (entry d s0)) = 20"
    and "tty (run fw boot_b 19 (entry d s0)) = c_string msg_loading_b"
    and "iflag (run fw boot_b 19 (entry d s0))"
    and "\<not> halted (run fw boot_b 19 (entry d s0))"
    and "left_to (run fw boot_b 19 (entry d s0)) = None"
    and "\<not> fault (run fw boot_b 19 (entry d s0))"
    and "disk_reads (run fw boot_b 19 (entry d s0)) = 0"
    and "\<not> df (run fw boot_b 19 (entry d s0))"
  using assms
  by (simp_all add: run_numeral step_def boot_b_def entry_def load_stage2_def KERNEL_OFFSET_def)

lemma boot_b_request_regs:
  assumes "\<not> df s0" and "store_clear (seg s0 DS)"
  shows "regs8 (run fw boot_b 19 (entry d s0)) = disk_request 15 (issued_drive d s0)"
proof
  fix r
  show "regs8 (run fw boot_b 19 (entry d s0)) r = disk_request 15 (issued_drive d s0) r"
    using assms
    by (cases r)
      (simp_all add: run_numeral step_def boot_b_def entry_def load_stage2_def KERNEL_OFFSET_def
        disk_request_def issued_drive_def segment_zero)
qed



subsection \<open>Profile A up to and after the disk read\<close>

lemma boot_a_request:
  assumes "\<not> df s0" and "store_clear (seg s0 DS)"
  shows "pc (run fw boot_a 19 (entry d s0)) = 19"
    and "tty (run fw boot_a 19 (entry d s0)) = c_string msg_boot_a @ c_string msg_loading_a"
    and "iflag (run fw boot_a 19 (entry d s0))"
    and "\<not> halted (run fw boot_a 19 (entry d s0))"
    and "left_to (run fw boot_a 19 (entry d s0)) = None"
    and "\<not> fault (run fw boot_a 19 (entry d s0))"
    and "disk_reads (run fw boot_a 19 (entry d s0)) = 0"
    and "\<not> df (run fw boot_a 19 (entry d s0))"
  using assms
  by (simp_all add: run_numeral step_def boot_a_def entry_def KERNEL_OFFSET_def)

lemma boot_a_request_regs:
  assumes "\<not> df s0" and "store_clear (seg s0 DS)"
  shows "regs8 (run fw boot_a 19 (entry d s0)) = disk_request 10 (issued_drive d s0)"
proof
  fix r
  show "regs8 (run fw boot_a 19 (entry d s0)) r = disk_request 10 (issued_drive d s0) r"
    using assms
    by (cases r)
      (simp_all add: run_numeral step_def boot_a_def entry_def KERNEL_OFFSET_def
        disk_request_def issued_drive_def segment_zero)
qed







text \<open>When the read is reported good, both loaders do jump to the load address.\<close>

lemma boot_b_success_tail:
  assumes "pc s = 20" and "regs8 s = disk_request 15 d" and "left_to s = None" and "\<not> fault s"
    and "\<not> df s"
    and "stack s = [Saved r m, Return_to 11]"
    and "int13 fw (disk_request 15 d) = (False, ah, 15)"
  shows "left_to (run fw boot_b 9 s) = Some KERNEL_OFFSET"
  using assms
  by (simp add: run_numeral step_def boot_b_def disk_error_b_def)

lemma boot_b_stack:
  assumes "\<not> df s0" and "store_clear (seg s0 DS)"
  shows "stack (run fw boot_b 19 (entry d s0))
     = [Saved ((regs8 (entry d s0))(AL := 0, AH := 0)) msg_loading_b, Return_to 11]"
  using assms
  by (simp add: run_numeral step_def boot_b_def entry_def load_stage2_def KERNEL_OFFSET_def)

lemma boot_b_success:
  assumes "\<not> df s0" and "store_clear (seg s0 DS)"
    and "int13 fw (disk_request 15 (issued_drive d s0)) = (False, ah, 15)"
  shows "left_to (run fw boot_b 28 (entry d s0)) = Some KERNEL_OFFSET"
proof -
  have split: "run fw boot_b 28 (entry d s0) = run fw boot_b 9 (run fw boot_b 19 (entry d s0))"
    using run_add [of fw boot_b 19 9 "entry d s0"] by simp
  note q = boot_b_request [OF assms(1,2), of fw d]
  show ?thesis
    unfolding split
    by (rule boot_b_success_tail
          [OF q(1) boot_b_request_regs [OF assms(1,2)] q(5,6,8) boot_b_stack [OF assms(1,2)]
            assms(3)])
qed

lemma boot_a_success_tail:
  assumes "pc s = 19" and "regs8 s = disk_request 10 d" and "left_to s = None" and "\<not> fault s"
    and "\<not> df s"
    and "int13 fw (disk_request 10 d) = (False, ah, 10)"
  shows "left_to (run fw boot_a 7 s) = Some KERNEL_OFFSET"
  using assms
  by (simp add: run_numeral step_def boot_a_def disk_error_a_def)

lemma boot_a_success:
  assumes "\<not> df s0" and "store_clear (seg s0 DS)"
    and "int13 fw (disk_request 10 (issued_drive d s0)) = (False, ah, 10)"
  shows "left_to (run fw boot_a 26 (entry d s0)) = Some KERNEL_OFFSET"
proof -
  have split: "run fw boot_a 26 (entry d s0) = run fw boot_a 7 (run fw boot_a 19 (entry d s0))"
    using run_add [of fw boot_a 19 7 "entry d s0"] by simp
  note q = boot_a_request [OF assms(1,2), of fw d]
  show ?thesis
    unfolding split
    by (rule boot_a_success_tail
          [OF q(1) boot_a_request_regs [OF assms(1,2)] q(5,6,8) assms(3)])
qed

text \<open>
  The drive read is the one of the request, not always the one the firmware passed:
  entered with a data segment other than 0, the loaders read drive 0, and jump to what
  was loaded from it although a read of the drive passed in \<open>DL\<close> would have failed.
\<close>

lemma entry_facts:
  "\<not> df cpu_zero" "store_clear (seg cpu_zero DS)" "issued_drive d cpu_zero = d"
  "\<not> df cpu_far" "store_clear (seg cpu_far DS)" "issued_drive d cpu_far = 0"
  by (simp_all add: cpu_zero_def cpu_far_def store_clear_def issued_drive_def)

lemma far_entry_reads_drive_0:
  "read_failed fw_fails_hd 15 0x80 \<and> \<not> read_failed fw_fails_hd 15 0
   \<and> left_to (run fw_fails_hd boot_b 28 (entry 0x80 cpu_far)) = Some KERNEL_OFFSET
   \<and> left_to (run fw_fails_hd boot_a 26 (entry 0x80 cpu_far)) = Some KERNEL_OFFSET"
proof -
  have "int13 fw_fails_hd (disk_request 15 (issued_drive 0x80 cpu_far)) = (False, 0, 15)"
    and "int13 fw_fails_hd (disk_request 10 (issued_drive 0x80 cpu_far)) = (False, 0, 10)"
    by (simp_all add: entry_facts fw_fails_hd_def disk_request_def)
  from boot_b_success [OF entry_facts(4,5) this(1)] boot_a_success [OF entry_facts(4,5) this(2)]
  show ?thesis
    by (simp add: read_failed_def fw_fails_hd_def disk_request_def)
qed







end
